theory Spec2Isabelle
  imports Complex_Main
begin

section \<open>Python values, errors and slices\<close>

text \<open>
  The script \<^verbatim>\<open>conv_split_cub_zst.py\<close> is Python 2 (\<^verbatim>\<open>from __future__ import print_function\<close>,
  \<^verbatim>\<open>six.moves.cPickle\<close>): \<^verbatim>\<open>/\<close> between two integers is floor division. A float is its exact
  value, one of the two infinities, or NaN; rounding is not modelled.
\<close>

datatype pyfloat = Fin real | PInf | NInf | NaN

text \<open>
  Every way the modelled code stops early is an error value: a modulo by zero, a read of a
  local variable that was never assigned, an index past the end of the named list, and
  \<^verbatim>\<open>sys.exit(code)\<close>.
\<close>

datatype error =
    ZeroDivisionError
  | UnboundLocalError string
  | IndexError string
  | SystemExit int

definition py_mod :: "int \<Rightarrow> int \<Rightarrow> error + int" where
  "py_mod a b = (if b = 0 then Inl ZeroDivisionError else Inr (a mod b))"

definition py_floordiv :: "int \<Rightarrow> int \<Rightarrow> error + int" where
  "py_floordiv a b = (if b = 0 then Inl ZeroDivisionError else Inr (a div b))"

text \<open>
  \<^verbatim>\<open>xs[a:b]\<close>: a negative bound counts from the end, and both bounds are clipped to the
  list.
\<close>

definition slice_index :: "nat \<Rightarrow> int \<Rightarrow> nat" where
  "slice_index len k = (if k < 0 then nat (max 0 (int len + k)) else min len (nat k))"

definition py_slice :: "'a list \<Rightarrow> int \<Rightarrow> int \<Rightarrow> 'a list" where
  "py_slice xs a b =
     (let lo = slice_index (length xs) a; hi = slice_index (length xs) b
      in take (hi - lo) (drop lo xs))"

text \<open>\<^verbatim>\<open>xs[k]\<close> for \<open>k\<close> from a \<^verbatim>\<open>range\<close>: past the end is an IndexError on the named list.\<close>

definition py_index :: "string \<Rightarrow> 'a list \<Rightarrow> nat \<Rightarrow> error + 'a" where
  "py_index name xs k = (if k < length xs then Inr (xs ! k) else Inl (IndexError name))"

section \<open>Data\<close>

text \<open>
  One split of a task (\<^verbatim>\<open>datasets[task]['train']\<close> or \<^verbatim>\<open>['test']\<close>) holds the two arrays
  \<^verbatim>\<open>'images'\<close> and \<^verbatim>\<open>'labels'\<close>. An image is any value; a label row is the index of its
  class.
\<close>

record 'x split =
  images :: "'x list"
  labels :: "nat list"

record 'x dataset =
  train :: "'x split"
  test :: "'x split"

type_synonym attrs = "real list list"

section \<open>The attribute mask\<close>

text \<open>\<^verbatim>\<open>np.zeros_like(class_attrs)\<close>\<close>

definition zeros_like :: "attrs \<Rightarrow> attrs" where
  "zeros_like m = map (\<lambda>row. map (\<lambda>_. 0) row) m"

text \<open>
  \<^verbatim>\<open>m[a:b] = v\<close> on the rows of an array, for \<open>v\<close> with as many rows as the slice has (here
  \<open>v\<close> is always the same slice of an array of the same shape).
\<close>

definition set_rows :: "'a list \<Rightarrow> nat \<Rightarrow> nat \<Rightarrow> 'a list \<Rightarrow> 'a list" where
  "set_rows m a b v = take a m @ v @ drop b m"

text \<open>
  Lines 241-243 of \<^verbatim>\<open>train_task_sequence\<close> and lines 429-431 of \<^verbatim>\<open>test_task_sequence\<close>:
  \<^verbatim>\<open>
  masked_class_attrs = np.zeros_like(class_attrs)
  attr_offset = task * num_classes_per_task
  masked_class_attrs[attr_offset:attr_offset+num_classes_per_task] =
      class_attrs[attr_offset:attr_offset+num_classes_per_task]
  \<close>
\<close>

definition attribute_mask :: "attrs \<Rightarrow> nat \<Rightarrow> nat \<Rightarrow> attrs" where
  "attribute_mask class_attrs num_classes_per_task task =
     (let masked_class_attrs = zeros_like class_attrs;
          attr_offset = task * num_classes_per_task
      in set_rows masked_class_attrs attr_offset (attr_offset + num_classes_per_task)
           (py_slice class_attrs (int attr_offset) (int (attr_offset + num_classes_per_task))))"

section \<open>The Evaluator: \<^verbatim>\<open>test_task_sequence\<close>\<close>

text \<open>
  The backend's \<^verbatim>\<open>model.correct_predictions\<close>, run with \<^verbatim>\<open>train_phase\<close> False and
  \<^verbatim>\<open>keep_prob\<close> 1.0, scores every example of the batch on its own: \<open>cp mca x y\<close> says whether
  image \<open>x\<close> with label \<open>y\<close> is classified correctly under the attribute matrix \<open>mca\<close>.
  \<^verbatim>\<open>np.sum\<close> of the result counts the correct ones.
\<close>

type_synonym 'x scorer = "attrs \<Rightarrow> 'x \<Rightarrow> nat \<Rightarrow> bool"

definition correct_predictions :: "'x scorer \<Rightarrow> attrs \<Rightarrow> 'x list \<Rightarrow> nat list \<Rightarrow> bool list" where
  "correct_predictions cp mca xs ys = map (\<lambda>(x, y). cp mca x y) (zip xs ys)"

definition np_sum :: "bool list \<Rightarrow> nat" where
  "np_sum bs = length (filter id bs)"

definition samples_at_a_time :: nat where
  "samples_at_a_time = 10"

text \<open>
  The local variables of \<^verbatim>\<open>test_task_sequence\<close> that live across the iterations of its loop
  over the tasks. \<^verbatim>\<open>masked_class_attrs\<close> and the inner loop variable \<^verbatim>\<open>i\<close> are unbound
  (\<open>None\<close>) until a statement assigns them.
\<close>

record test_locals =
  list_acc :: "pyfloat list"
  var_masked_class_attrs :: "attrs option"
  var_i :: "nat option"

definition test_locals_init :: test_locals where
  "test_locals_init = \<lparr> list_acc = [], var_masked_class_attrs = None, var_i = None \<rparr>"

text \<open>
  Lines 438-444, the loop \<^verbatim>\<open>for i in range(total_test_samples / samples_at_a_time)\<close> over the
  values of \<open>i\<close> still to come; the feed dictionary reads \<^verbatim>\<open>masked_class_attrs\<close>.
\<close>

fun chunk_loop ::
  "'x scorer \<Rightarrow> attrs option \<Rightarrow> 'x list \<Rightarrow> nat list \<Rightarrow> nat list \<Rightarrow> nat \<Rightarrow> error + nat" where
  "chunk_loop cp m xs ys [] total_corrects = Inr total_corrects"
| "chunk_loop cp m xs ys (k # ks) total_corrects =
     (case m of
        None \<Rightarrow> Inl (UnboundLocalError ''masked_class_attrs'')
      | Some mca \<Rightarrow>
          (let offset = k * samples_at_a_time
           in chunk_loop cp m xs ys ks
                (total_corrects +
                 np_sum (correct_predictions cp mca
                   (py_slice xs (int offset) (int (offset + samples_at_a_time)))
                   (py_slice ys (int offset) (int (offset + samples_at_a_time)))))))"

text \<open>
  \<^verbatim>\<open>acc = total_corrects / float(total_test_samples)\<close>: the count is a numpy scalar, so a zero
  denominator gives NaN and not an exception.
\<close>

definition accuracy :: "nat \<Rightarrow> nat \<Rightarrow> pyfloat" where
  "accuracy total_corrects total_test_samples =
     (if total_test_samples = 0 then NaN
      else Fin (real total_corrects / real total_test_samples))"

text \<open>The body of the loop over the tasks, lines 427-456.\<close>

definition test_task ::
  "'x scorer \<Rightarrow> 'x dataset list \<Rightarrow> attrs \<Rightarrow> nat \<Rightarrow> bool \<Rightarrow> bool \<Rightarrow> nat \<Rightarrow> test_locals
     \<Rightarrow> error + test_locals" where
  "test_task cp test_data class_attrs num_classes_per_task cross_validate_mode eval_single_head
     task L =
     (let L1 = (if \<not> eval_single_head
                then L\<lparr>var_masked_class_attrs :=
                          Some (attribute_mask class_attrs num_classes_per_task task)\<rparr>
                else L)
      in case py_index ''test_data'' test_data task of
           Inl e \<Rightarrow> Inl e
         | Inr d \<Rightarrow>
          (let s = (if cross_validate_mode then train d else test d);
               task_test_images = images s;
               task_test_labels = labels s;
               total_test_samples = length task_test_images;
               chunks = total_test_samples div samples_at_a_time
           in case chunk_loop cp (var_masked_class_attrs L1) task_test_images task_test_labels
                     [0..<chunks] 0 of
                Inl e \<Rightarrow> Inl e
              | Inr c1 \<Rightarrow>
                 (let L2 = (if 0 < chunks then L1\<lparr>var_i := Some (chunks - 1)\<rparr> else L1)
                  in case var_i L2 of
                       None \<Rightarrow> Inl (UnboundLocalError ''i'')
                     | Some iv \<Rightarrow>
                        (let offset = (iv + 1) * samples_at_a_time;
                             num_residuals = total_test_samples mod samples_at_a_time
                         in case var_masked_class_attrs L2 of
                              None \<Rightarrow> Inl (UnboundLocalError ''masked_class_attrs'')
                            | Some mca \<Rightarrow>
                               (let total_corrects = c1 +
                                      np_sum (correct_predictions cp mca
                                        (py_slice task_test_images (int offset)
                                           (int (offset + num_residuals)))
                                        (py_slice task_test_labels (int offset)
                                           (int (offset + num_residuals))));
                                    acc = accuracy total_corrects total_test_samples
                                in Inr (L2\<lparr>list_acc := list_acc L2 @ [acc]\<rparr>))))))"

text \<open>\<^verbatim>\<open>for task, labels in enumerate(test_tasks)\<close>, over the task numbers still to come.\<close>

fun test_tasks_loop ::
  "'x scorer \<Rightarrow> 'x dataset list \<Rightarrow> attrs \<Rightarrow> nat \<Rightarrow> bool \<Rightarrow> bool \<Rightarrow> nat list \<Rightarrow> test_locals
     \<Rightarrow> error + test_locals" where
  "test_tasks_loop cp test_data class_attrs ncpt cv single [] L = Inr L"
| "test_tasks_loop cp test_data class_attrs ncpt cv single (task # ts) L =
     (case test_task cp test_data class_attrs ncpt cv single task L of
        Inl e \<Rightarrow> Inl e
      | Inr L' \<Rightarrow> test_tasks_loop cp test_data class_attrs ncpt cv single ts L')"

definition test_task_sequence ::
  "'x scorer \<Rightarrow> 'x dataset list \<Rightarrow> attrs \<Rightarrow> nat \<Rightarrow> nat list list \<Rightarrow> bool \<Rightarrow> bool
     \<Rightarrow> error + pyfloat list" where
  "test_task_sequence cp test_data class_attrs num_classes_per_task test_tasks
     cross_validate_mode eval_single_head =
     (case test_tasks_loop cp test_data class_attrs num_classes_per_task cross_validate_mode
             eval_single_head [0..<length test_tasks] test_locals_init of
        Inl e \<Rightarrow> Inl e
      | Inr L \<Rightarrow> Inr (list_acc L))"

text \<open>Scoring a whole split in one pass: the number of its examples that are correct.\<close>

definition one_pass_corrects :: "'x scorer \<Rightarrow> attrs \<Rightarrow> 'x split \<Rightarrow> nat" where
  "one_pass_corrects cp mca s = np_sum (correct_predictions cp mca (images s) (labels s))"

text \<open>
  The accuracy of one task scored in one pass, under the mask of its own classes: the value
  the multi-head Evaluator is meant to return for task \<open>task\<close>.
\<close>

definition task_accuracy :: "'x scorer \<Rightarrow> 'x dataset list \<Rightarrow> attrs \<Rightarrow> nat \<Rightarrow> bool \<Rightarrow> nat \<Rightarrow> pyfloat" where
  "task_accuracy cp td ca ncpt cv task =
     (let s = (if cv then train (td ! task) else test (td ! task))
      in accuracy (one_pass_corrects cp (attribute_mask ca ncpt task) s) (length (images s)))"


section \<open>The backend, its trace and the utilities\<close>

text \<open>
  The network, its optimiser and the TensorFlow session are outside the script. What the
  script does to them is recorded as a trace: one event for every \<^verbatim>\<open>sess.run\<close> call of a
  training step, tagged with the run, the task and the iteration it belongs to and listing
  the operations it fetches, and one event for every call of a method of \<^verbatim>\<open>model\<close> and for
  every invocation of the Evaluator.
\<close>

datatype importance_method = VAN | PI | EWC | MAS | GEM | RWALK

datatype op =
    Train | RegLoss
  | SetInitialRunningFisher | SetRunningFisher | ResetTmpFisher | SetTmpFisher
  | WeightsOldOpsGrouped | UpdateSmallOmega
  | TrainFirstTask | TaskGrads | StoreTaskGradients | GemGradientUpdate | StoreGrads
  | TrainSubseqTasks
  | WeightsDeltaOldGrouped | UpdateBigOmegaRiemann | ResetSmallOmega

datatype event =
    GlobalInit nat
  | InitUpdates nat
  | Restore nat nat
  | Evaluate nat nat "nat option" bool
  | SessRun nat nat nat "op list"
  | TaskUpdates nat nat
  | ResetOptimizer nat nat

text \<open>
  An action of the script yields the events it caused and either an error, which ends the
  process (nothing in the script catches an exception), or a value.
\<close>

type_synonym 'a action = "event list \<times> (error + 'a)"

definition ok :: "'a \<Rightarrow> 'a action" where
  "ok a = ([], Inr a)"

definition log :: "event \<Rightarrow> unit action" where
  "log ev = ([ev], Inr ())"

definition of_result :: "error + 'a \<Rightarrow> 'a action" where
  "of_result r = ([], r)"

definition and_then :: "'a action \<Rightarrow> ('a \<Rightarrow> 'b action) \<Rightarrow> 'b action" where
  "and_then m f =
     (case snd m of
        Inl e \<Rightarrow> (fst m, Inl e)
      | Inr a \<Rightarrow> (fst m @ fst (f a), snd (f a)))"

text \<open>A \<^verbatim>\<open>for\<close> loop over the values still to come, without and with \<^verbatim>\<open>break\<close>.\<close>

fun for_each :: "nat list \<Rightarrow> (nat \<Rightarrow> 's \<Rightarrow> 's action) \<Rightarrow> 's \<Rightarrow> 's action" where
  "for_each [] body s = ok s"
| "for_each (k # ks) body s = and_then (body k s) (\<lambda>s'. for_each ks body s')"

fun for_break :: "nat list \<Rightarrow> (nat \<Rightarrow> 's \<Rightarrow> (bool \<times> 's) action) \<Rightarrow> 's \<Rightarrow> 's action" where
  "for_break [] body s = ok s"
| "for_break (k # ks) body s =
     and_then (body k s) (\<lambda>r. if fst r then ok (snd r) else for_break ks body (snd r))"

text \<open>
  The two calls of \<^verbatim>\<open>sample_from_dataset\<close> after a task: line 356 for the episodic memory
  of GEM, line 369 for the replay buffer.
\<close>

datatype site = EpisodicMemory | ReplayBuffer

text \<open>
  The environment of a run of the script. From \<^verbatim>\<open>model\<close>: the method and
  \<^verbatim>\<open>fisher_update_after\<close>; the loss \<^verbatim>\<open>model.reg_loss\<close> that the training step of a run,
  task and iteration returns; the scoring of \<^verbatim>\<open>model.correct_predictions\<close> at an evaluation
  made in a run and task, before an iteration (a snapshot) or after the task's training
  (\<open>None\<close>). From numpy: the permutation that \<^verbatim>\<open>np.random.shuffle\<close> gives \<^verbatim>\<open>np.arange(n)\<close> in
  a run and task. The functions that the script imports from \<^verbatim>\<open>utils.utils\<close>, whose code is not
  part of the script: \<^verbatim>\<open>get_sample_weights\<close>, \<^verbatim>\<open>concatenate_datasets\<close> (the previous samples
  are \<open>None\<close> while none has been stored) and \<^verbatim>\<open>sample_from_dataset\<close>, which draws at random
  and returns a pair of arrays or \<^verbatim>\<open>(None, None)\<close>; its result is a function of where in the
  run the call is made and of its arguments (the split, the importance array, the labels of
  the task, the number of samples per class).
\<close>

record 'x env =
  imp_method :: importance_method
  fisher_update_after :: int
  reg_loss :: "nat \<Rightarrow> nat \<Rightarrow> nat \<Rightarrow> pyfloat"
  scorer :: "nat \<Rightarrow> nat \<Rightarrow> nat option \<Rightarrow> 'x scorer"
  shuffle :: "nat \<Rightarrow> nat \<Rightarrow> nat \<Rightarrow> nat list"
  get_sample_weights :: "nat list \<Rightarrow> nat list \<Rightarrow> real list"
  concatenate_datasets :: "'x split \<Rightarrow> 'x split option \<Rightarrow> error + 'x split"
  sample_from_dataset ::
    "nat \<Rightarrow> nat \<Rightarrow> site \<Rightarrow> 'x split \<Rightarrow> real list \<Rightarrow> nat list \<Rightarrow> nat \<Rightarrow> 'x split option"

text \<open>
  The parameters of \<^verbatim>\<open>train_task_sequence\<close> that come from the command line and from the
  task split. The integers of the command line are integers; the number of samples per
  class is only handed on to \<^verbatim>\<open>sample_from_dataset\<close>.
\<close>

record config =
  cross_validate_mode :: bool
  train_single_epoch :: bool
  eval_single_head :: bool
  do_sampling :: bool
  samples_per_class :: nat
  train_iters :: int
  batch_size :: int
  num_runs :: int
  num_classes_per_task :: nat

text \<open>
  What a task appends to \<^verbatim>\<open>evals\<close>: the accuracies of the last evaluation, or, when training
  for a single epoch outside cross-validation, the list of all snapshots of the task.
\<close>

datatype task_evals = Accs "pyfloat list" | Snapshots "pyfloat list list"

text \<open>
  The variables of one run (lines 172-190) and \<^verbatim>\<open>ftask\<close>, which each task resets.
  \<^verbatim>\<open>task_based_memory\<close> exists only for GEM and \<^verbatim>\<open>last_task_x\<close>, \<^verbatim>\<open>last_task_y_\<close> only when
  sampling; they are read under the same conditions. An entry of the episodic memory is the
  pair that \<^verbatim>\<open>sample_from_dataset\<close> returned; \<open>last_task\<close> is the pair \<^verbatim>\<open>last_task_x\<close>,
  \<^verbatim>\<open>last_task_y_\<close>.
\<close>

record 'x run_state =
  evals :: "task_evals list"
  test_labels :: "nat list"
  task_based_memory :: "'x split option list"
  last_task :: "'x split option"
  loss_world :: "pyfloat list"
  i_am_increasing :: nat
  ftask :: "pyfloat list list"

definition my_threshold :: nat where
  "my_threshold = 4"

definition run_state_init :: "'x run_state" where
  "run_state_init =
     \<lparr> evals = [], test_labels = [], task_based_memory = [], last_task = None,
       loss_world = replicate 4 PInf, i_am_increasing = 0, ftask = [] \<rparr>"

section \<open>The training batch\<close>

text \<open>What lines 202-243 compute for a task and the training loop reads.\<close>

record 'x task_locals =
  num_train_examples :: nat
  num_iters :: int
  train_x :: "'x list"
  train_y :: "nat list"
  task_sample_weights :: "real list"
  masked_class_attrs :: attrs

text \<open>\<^verbatim>\<open>xs[perm]\<close> for an array of indices.\<close>

definition np_take :: "string \<Rightarrow> 'a list \<Rightarrow> nat list \<Rightarrow> error + 'a list" where
  "np_take name xs perm =
     (if \<forall>k\<in>set perm. k < length xs then Inr (map (\<lambda>k. xs ! k) perm)
      else Inl (IndexError name))"

text \<open>Line 254: \<^verbatim>\<open>offset = (iters * batch_size) % (num_train_examples - batch_size)\<close>.\<close>

definition batch_offset :: "nat \<Rightarrow> int \<Rightarrow> nat \<Rightarrow> error + int" where
  "batch_offset iters bs n = py_mod (int iters * bs) (int n - bs)"

text \<open>The feed dictionary of a training step, lines 256-260.\<close>

record 'x feed =
  feed_x :: "'x list"
  feed_y :: "nat list"
  feed_class_attr :: attrs
  feed_sample_weights :: "real list"
  feed_training_iters :: int
  feed_train_step :: nat
  feed_keep_prob :: real
  feed_train_phase :: bool

definition train_feed :: "'x task_locals \<Rightarrow> int \<Rightarrow> nat \<Rightarrow> error + 'x feed" where
  "train_feed loc bs iters =
     (case batch_offset iters bs (num_train_examples loc) of
        Inl e \<Rightarrow> Inl e
      | Inr offset \<Rightarrow>
          Inr \<lparr> feed_x = py_slice (train_x loc) offset (offset + bs),
                feed_y = py_slice (train_y loc) offset (offset + bs),
                feed_class_attr = masked_class_attrs loc,
                feed_sample_weights = py_slice (task_sample_weights loc) offset (offset + bs),
                feed_training_iters = num_iters loc,
                feed_train_step = iters,
                feed_keep_prob = 1 / 2,
                feed_train_phase = True \<rparr>)"

section \<open>Early stopping\<close>

text \<open>
  Comparison of floats (false when either side is NaN), \<^verbatim>\<open>loss_world.max()\<close> and
  \<^verbatim>\<open>np.argmax(loss_world)\<close> (NaN wins, the first maximum is taken). \<^verbatim>\<open>loss_world\<close> always
  has four entries.
\<close>

fun pf_less :: "pyfloat \<Rightarrow> pyfloat \<Rightarrow> bool" where
  "pf_less NaN _ = False"
| "pf_less _ NaN = False"
| "pf_less _ NInf = False"
| "pf_less NInf _ = True"
| "pf_less PInf _ = False"
| "pf_less (Fin a) PInf = True"
| "pf_less (Fin a) (Fin b) = (a < b)"

definition pf_max2 :: "pyfloat \<Rightarrow> pyfloat \<Rightarrow> pyfloat" where
  "pf_max2 a b = (if a = NaN \<or> b = NaN then NaN else if pf_less a b then b else a)"

fun np_max :: "pyfloat list \<Rightarrow> pyfloat" where
  "np_max [] = NaN"
| "np_max (x # xs) = fold (\<lambda>y m. pf_max2 m y) xs x"

fun first_index :: "'a \<Rightarrow> 'a list \<Rightarrow> nat" where
  "first_index x [] = 0"
| "first_index x (y # ys) = (if x = y then 0 else Suc (first_index x ys))"

definition np_argmax :: "pyfloat list \<Rightarrow> nat" where
  "np_argmax xs = first_index (np_max xs) xs"

text \<open>
  Lines 333-341, at an iteration with \<^verbatim>\<open>iters > 1000 and iters % 100 == 0\<close>: the new state
  and whether the loop breaks.
\<close>

definition early_stopping :: "pyfloat \<Rightarrow> 'x run_state \<Rightarrow> bool \<times> 'x run_state" where
  "early_stopping loss st =
     (let st1 = (if pf_less loss (np_max (loss_world st))
                 then st\<lparr>loss_world := (loss_world st)[np_argmax (loss_world st) := loss],
                          i_am_increasing := 0\<rparr>
                 else st\<lparr>i_am_increasing := i_am_increasing st + 1\<rparr>)
      in (my_threshold < i_am_increasing st1, st1))"

definition check_due :: "nat \<Rightarrow> bool" where
  "check_due iters = (1000 < iters \<and> iters mod 100 = 0)"

section \<open>One training step\<close>

definition sess_run :: "nat \<Rightarrow> nat \<Rightarrow> nat \<Rightarrow> op list \<Rightarrow> unit action" where
  "sess_run run task iters ops = log (SessRun run task iters ops)"

text \<open>
  Lines 289-294: the gradients on the episodic memory of the previous tasks still to come;
  \<^verbatim>\<open>task_based_memory[prev_task]\<close> is read for the feed.
\<close>

fun reference_gradients ::
  "nat \<Rightarrow> nat \<Rightarrow> nat \<Rightarrow> 'x split option list \<Rightarrow> nat list \<Rightarrow> unit action" where
  "reference_gradients run task iters mem [] = ok ()"
| "reference_gradients run task iters mem (prev_task # ps) =
     and_then (of_result (py_index ''task_based_memory'' mem prev_task)) (\<lambda>entry.
     and_then (sess_run run task iters [TaskGrads, StoreTaskGradients]) (\<lambda>_.
     reference_gradients run task iters mem ps))"

text \<open>Lines 262-322: the operations of the method.\<close>

definition train_ops ::
  "'x env \<Rightarrow> nat \<Rightarrow> nat \<Rightarrow> nat \<Rightarrow> 'x split option list \<Rightarrow> unit action" where
  "train_ops env run task iters mem =
     (case imp_method env of
        VAN \<Rightarrow> sess_run run task iters [Train, RegLoss]
      | EWC \<Rightarrow>
          and_then (if task = 0 \<and> iters = 0
                    then sess_run run task iters [SetInitialRunningFisher] else ok ()) (\<lambda>_.
          and_then (of_result (py_mod (int iters + 1) (fisher_update_after env))) (\<lambda>m.
          and_then (if m = 0
                    then and_then (sess_run run task iters [SetRunningFisher]) (\<lambda>_.
                         sess_run run task iters [ResetTmpFisher])
                    else ok ()) (\<lambda>_.
          sess_run run task iters [SetTmpFisher, Train, RegLoss])))
      | PI \<Rightarrow> sess_run run task iters [WeightsOldOpsGrouped, Train, UpdateSmallOmega, RegLoss]
      | MAS \<Rightarrow> sess_run run task iters [Train, RegLoss]
      | GEM \<Rightarrow>
          (if task = 0 then sess_run run task iters [TrainFirstTask, RegLoss]
           else
             and_then (reference_gradients run task iters mem [0..<task]) (\<lambda>_.
             and_then (sess_run run task iters [TaskGrads, StoreTaskGradients, RegLoss]) (\<lambda>_.
             and_then (sess_run run task iters [GemGradientUpdate, StoreGrads]) (\<lambda>_.
             sess_run run task iters [TrainSubseqTasks]))))
      | RWALK \<Rightarrow>
          and_then (if task = 0 \<and> iters = 0
                    then and_then (sess_run run task iters [SetInitialRunningFisher]) (\<lambda>_.
                         sess_run run task iters [WeightsDeltaOldGrouped])
                    else ok ()) (\<lambda>_.
          and_then (of_result (py_mod (int iters + 1) (fisher_update_after env))) (\<lambda>m.
          and_then (if m = 0
                    then and_then (sess_run run task iters [UpdateBigOmegaRiemann]) (\<lambda>_.
                         and_then (sess_run run task iters [SetRunningFisher]) (\<lambda>_.
                         and_then (sess_run run task iters [WeightsDeltaOldGrouped]) (\<lambda>_.
                         sess_run run task iters [ResetSmallOmega])))
                    else ok ()) (\<lambda>_.
          sess_run run task iters
            [SetTmpFisher, WeightsOldOpsGrouped, Train, UpdateSmallOmega, RegLoss]))))"

definition snapshot_due :: "nat \<Rightarrow> bool" where
  "snapshot_due iters = ((iters \<le> 50 \<and> iters mod 5 = 0) \<or> (50 < iters \<and> iters mod 50 = 0))"

text \<open>
  An invocation of the Evaluator by \<^verbatim>\<open>train_task_sequence\<close>: always on all the data sets and
  on the labels of all the tasks.
\<close>

definition evaluate ::
  "'x env \<Rightarrow> config \<Rightarrow> 'x dataset list \<Rightarrow> attrs \<Rightarrow> nat list list \<Rightarrow> nat \<Rightarrow> nat \<Rightarrow> nat option
     \<Rightarrow> bool \<Rightarrow> pyfloat list action" where
  "evaluate env cfg datasets class_attrs task_labels run task point cv =
     and_then (log (Evaluate run task point cv)) (\<lambda>_.
     of_result (test_task_sequence (scorer env run task point) datasets class_attrs
                  (num_classes_per_task cfg) task_labels cv (eval_single_head cfg)))"

text \<open>
  The body of the loop over \<^verbatim>\<open>iters\<close>, lines 248-341: the new state and whether the loop
  breaks. \<^verbatim>\<open>sys.exit(0)\<close> ends the process.
\<close>

definition train_iteration ::
  "'x env \<Rightarrow> config \<Rightarrow> 'x dataset list \<Rightarrow> attrs \<Rightarrow> nat list list \<Rightarrow> nat \<Rightarrow> nat
     \<Rightarrow> 'x task_locals \<Rightarrow> nat \<Rightarrow> 'x run_state \<Rightarrow> (bool \<times> 'x run_state) action" where
  "train_iteration env cfg datasets class_attrs task_labels run task loc iters st =
     and_then
       (if train_single_epoch cfg \<and> \<not> cross_validate_mode cfg \<and> snapshot_due iters
        then and_then (evaluate env cfg datasets class_attrs task_labels run task (Some iters)
                         (cross_validate_mode cfg)) (\<lambda>fbatch.
             ok (st\<lparr>ftask := ftask st @ [fbatch]\<rparr>))
        else ok st) (\<lambda>st1.
     and_then (of_result (train_feed loc (batch_size cfg) iters)) (\<lambda>feed_dict.
     and_then (train_ops env run task iters (task_based_memory st1)) (\<lambda>_.
       (let loss = reg_loss env run task iters
        in if loss = NaN then of_result (Inl (SystemExit 0))
           else if check_due iters then ok (early_stopping loss st1)
           else ok (False, st1)))))"

definition train_loop ::
  "'x env \<Rightarrow> config \<Rightarrow> 'x dataset list \<Rightarrow> attrs \<Rightarrow> nat list list \<Rightarrow> nat \<Rightarrow> nat
     \<Rightarrow> 'x task_locals \<Rightarrow> 'x run_state \<Rightarrow> 'x run_state action" where
  "train_loop env cfg datasets class_attrs task_labels run task loc st =
     for_break [0..<nat (num_iters loc)]
       (train_iteration env cfg datasets class_attrs task_labels run task loc) st"

section \<open>One task\<close>

text \<open>Lines 194-243: the training data of the task, its weights, its shuffle and its mask.\<close>

definition prepare_task ::
  "'x env \<Rightarrow> config \<Rightarrow> 'x dataset list \<Rightarrow> attrs \<Rightarrow> nat list list \<Rightarrow> nat \<Rightarrow> nat
     \<Rightarrow> 'x run_state \<Rightarrow> ('x task_locals \<times> 'x run_state) action" where
  "prepare_task env cfg datasets class_attrs task_labels run task st =
     and_then (if 0 < task then log (Restore run task) else ok ()) (\<lambda>_.
     and_then (of_result (py_index ''datasets'' datasets task)) (\<lambda>d.
     and_then (if do_sampling cfg \<and> 0 < task
               then of_result (concatenate_datasets env (train d) (last_task st))
               else ok (train d)) (\<lambda>task_train.
     and_then (of_result (py_index ''task_labels'' task_labels task)) (\<lambda>labs.
       (let st1 = st\<lparr>test_labels := test_labels st @ labs\<rparr>;
            weights = (if do_sampling cfg
                       then get_sample_weights env (labels task_train) (test_labels st1)
                       else replicate (length (labels task_train)) 1);
            n = length (images task_train)
        in
     and_then (of_result (if train_single_epoch cfg then py_floordiv (int n) (batch_size cfg)
                          else Inr (train_iters cfg))) (\<lambda>iterations.
       (let perm = shuffle env run task n
        in
     and_then (of_result (np_take ''task_train_images'' (images task_train) perm)) (\<lambda>tx.
     and_then (of_result (np_take ''task_train_labels'' (labels task_train) perm)) (\<lambda>ty.
     and_then (of_result (np_take ''task_sample_weights'' weights perm)) (\<lambda>tw.
     ok (\<lparr> num_train_examples = n, num_iters = iterations, train_x = tx, train_y = ty,
            task_sample_weights = tw,
            masked_class_attrs = attribute_mask class_attrs (num_classes_per_task cfg) task \<rparr>,
         st1\<lparr>ftask := []\<rparr>)))))))))))"

text \<open>
  Lines 347-383, for a task that is not the last: the updates between tasks, the episodic
  memory of GEM and the replay buffer. Lines 372-378 append the new samples \<^verbatim>\<open>imp_images\<close>,
  \<^verbatim>\<open>imp_labels\<close> to \<^verbatim>\<open>last_task_x\<close>, \<^verbatim>\<open>last_task_y_\<close>, unless there are none.
\<close>

definition append_samples :: "'x split option \<Rightarrow> 'x split option \<Rightarrow> 'x split option" where
  "append_samples last_task_xy imp =
     (case imp of
        None \<Rightarrow> last_task_xy
      | Some i \<Rightarrow>
         (case last_task_xy of
            None \<Rightarrow> Some i
          | Some l \<Rightarrow> Some \<lparr> images = images l @ images i, labels = labels l @ labels i \<rparr>))"

definition store_samples ::
  "'x env \<Rightarrow> config \<Rightarrow> nat \<Rightarrow> nat \<Rightarrow> 'x split \<Rightarrow> nat list \<Rightarrow> 'x run_state \<Rightarrow> 'x run_state" where
  "store_samples env cfg run task task_train labs st =
     (let importance_array = replicate (length (images task_train)) 1;
          st1 = (if imp_method env = GEM
                 then st\<lparr>task_based_memory := task_based_memory st @
                            [sample_from_dataset env run task EpisodicMemory task_train
                               importance_array labs (samples_per_class cfg)]\<rparr>
                 else st)
      in if do_sampling cfg
         then st1\<lparr>last_task := append_samples (last_task st1)
                      (sample_from_dataset env run task ReplayBuffer task_train importance_array
                         labs (samples_per_class cfg))\<rparr>
         else st1)"

definition task_boundary ::
  "'x env \<Rightarrow> config \<Rightarrow> 'x dataset list \<Rightarrow> nat list list \<Rightarrow> nat \<Rightarrow> nat \<Rightarrow> 'x run_state
     \<Rightarrow> 'x run_state action" where
  "task_boundary env cfg datasets task_labels run task st =
     (if int task < int (length datasets) - 1
      then and_then (of_result (py_index ''task_labels'' task_labels task)) (\<lambda>labs.
           and_then (log (TaskUpdates run task)) (\<lambda>_.
           and_then (of_result (py_index ''datasets'' datasets task)) (\<lambda>d.
           ok (store_samples env cfg run task (train d) labs st))))
      else ok st)"

text \<open>Lines 385-400: the evaluation after the task and the reset of the optimizer.\<close>

definition finish_task ::
  "'x env \<Rightarrow> config \<Rightarrow> 'x dataset list \<Rightarrow> attrs \<Rightarrow> nat list list \<Rightarrow> nat \<Rightarrow> nat
     \<Rightarrow> 'x run_state \<Rightarrow> 'x run_state action" where
  "finish_task env cfg datasets class_attrs task_labels run task st =
     and_then
       (if train_single_epoch cfg \<and> \<not> cross_validate_mode cfg
        then and_then (evaluate env cfg datasets class_attrs task_labels run task None
                         (cross_validate_mode cfg)) (\<lambda>fbatch.
             ok (Snapshots (ftask st @ [fbatch])))
        else and_then (evaluate env cfg datasets class_attrs task_labels run task None True)
               (\<lambda>_.
             and_then (evaluate env cfg datasets class_attrs task_labels run task None
                         (cross_validate_mode cfg)) (\<lambda>accs.
             ok (Accs accs)))) (\<lambda>result.
     and_then (log (ResetOptimizer run task)) (\<lambda>_.
     ok (st\<lparr>evals := evals st @ [result]\<rparr>)))"

text \<open>The body of the loop over the tasks, lines 194-400.\<close>

definition train_task ::
  "'x env \<Rightarrow> config \<Rightarrow> 'x dataset list \<Rightarrow> attrs \<Rightarrow> nat list list \<Rightarrow> nat \<Rightarrow> nat
     \<Rightarrow> 'x run_state \<Rightarrow> 'x run_state action" where
  "train_task env cfg datasets class_attrs task_labels run task st =
     and_then (prepare_task env cfg datasets class_attrs task_labels run task st) (\<lambda>p.
     and_then (train_loop env cfg datasets class_attrs task_labels run task (fst p) (snd p))
       (\<lambda>st2.
     and_then (task_boundary env cfg datasets task_labels run task st2) (\<lambda>st3.
     finish_task env cfg datasets class_attrs task_labels run task st3)))"

section \<open>Runs: \<^verbatim>\<open>train_task_sequence\<close>\<close>

text \<open>The state of a run when the tasks before \<open>task\<close> are done and that task is to begin.\<close>

definition tasks_before ::
  "'x env \<Rightarrow> config \<Rightarrow> 'x dataset list \<Rightarrow> attrs \<Rightarrow> nat list list \<Rightarrow> nat \<Rightarrow> nat
     \<Rightarrow> 'x run_state action" where
  "tasks_before env cfg datasets class_attrs task_labels run task =
     for_each [0..<task] (train_task env cfg datasets class_attrs task_labels run)
       run_state_init"

text \<open>The body of the loop over the runs, lines 163-404.\<close>

definition train_run ::
  "'x env \<Rightarrow> config \<Rightarrow> 'x dataset list \<Rightarrow> attrs \<Rightarrow> nat list list \<Rightarrow> nat
     \<Rightarrow> task_evals list action" where
  "train_run env cfg datasets class_attrs task_labels run =
     and_then (log (GlobalInit run)) (\<lambda>_.
     and_then (log (InitUpdates run)) (\<lambda>_.
     and_then (tasks_before env cfg datasets class_attrs task_labels run (length datasets))
       (\<lambda>st.
     ok (evals st))))"

definition train_task_sequence ::
  "'x env \<Rightarrow> config \<Rightarrow> 'x dataset list \<Rightarrow> attrs \<Rightarrow> nat list list
     \<Rightarrow> task_evals list list action" where
  "train_task_sequence env cfg datasets class_attrs task_labels =
     for_each [0..<nat (num_runs cfg)]
       (\<lambda>run runs.
          and_then (train_run env cfg datasets class_attrs task_labels run) (\<lambda>e.
          ok (runs @ [e])))
       []"

section \<open>Notions used to state and prove the claims\<close>

text \<open>A property of traces that holds of the empty trace and of the concatenation of two traces that have it.\<close>

definition append_closed :: "(event list \<Rightarrow> bool) \<Rightarrow> bool" where
  "append_closed Q \<longleftrightarrow> Q [] \<and> (\<forall>a b. Q a \<longrightarrow> Q b \<longrightarrow> Q (a @ b))"

text \<open>
  The schedule that the claim on EWC describes for the step of iteration \<open>iters\<close> of a task,
  with \<^verbatim>\<open>fisher_update_after\<close> 50: the running Fisher estimate is initialised at the first
  iteration of the first task; at iterations 49, 99, 149, ... the temporary estimate is
  committed and reset; the temporary estimate is accumulated with the training step.
\<close>

definition fisher_schedule :: "nat \<Rightarrow> nat \<Rightarrow> nat \<Rightarrow> event list" where
  "fisher_schedule run task iters =
     (if task = 0 \<and> iters = 0 then [SessRun run task iters [SetInitialRunningFisher]] else []) @
     (if iters mod 50 = 49
      then [SessRun run task iters [SetRunningFisher], SessRun run task iters [ResetTmpFisher]]
      else []) @
     [SessRun run task iters [SetTmpFisher, Train, RegLoss]]"

text \<open>
  An action stops at the step of a run, task and iteration: if its trace holds a \<^verbatim>\<open>sess.run\<close> of
  that iteration that fetches the loss, then it ends with \<^verbatim>\<open>sys.exit(0)\<close> and the last event of
  its trace is a \<^verbatim>\<open>sess.run\<close> of that iteration.
\<close>

definition stops_at :: "nat \<Rightarrow> nat \<Rightarrow> nat \<Rightarrow> 'a action \<Rightarrow> bool" where
  "stops_at run task iters m \<longleftrightarrow>
     ((\<exists>ops. SessRun run task iters ops \<in> set (fst m) \<and> RegLoss \<in> set ops) \<longrightarrow>
      snd m = Inl (SystemExit 0) \<and> fst m \<noteq> [] \<and>
      (\<exists>ops. last (fst m) = SessRun run task iters ops))"

text \<open>
  The events of an action are all \<^verbatim>\<open>sess.run\<close> calls of one iteration, and once one of them has
  fetched the loss the action does not fail.
\<close>

definition tagged :: "nat \<Rightarrow> nat \<Rightarrow> nat \<Rightarrow> unit action \<Rightarrow> bool" where
  "tagged run task iters m \<longleftrightarrow>
     (\<forall>ev\<in>set (fst m). \<exists>ops. ev = SessRun run task iters ops) \<and>
     ((\<exists>ev\<in>set (fst m). \<exists>r t i ops. ev = SessRun r t i ops \<and> RegLoss \<in> set ops) \<longrightarrow>
        snd m = Inr ())"

text \<open>The episodic memory and the replay buffer of a state.\<close>

definition stores :: "'x run_state \<Rightarrow> 'x split option list \<times> 'x split option" where
  "stores st = (task_based_memory st, last_task st)"

text \<open>
  The draws of \<^verbatim>\<open>sample_from_dataset\<close> after a task, as lines 354-357 and 367-370 make them,
  and the number and the list of the images that a pair of arrays holds (\<open>None\<close> holds none).
\<close>

definition episodic_sample ::
  "'x env \<Rightarrow> config \<Rightarrow> 'x dataset list \<Rightarrow> nat list list \<Rightarrow> nat \<Rightarrow> nat \<Rightarrow> 'x split option" where
  "episodic_sample env cfg datasets task_labels run task =
     sample_from_dataset env run task EpisodicMemory (train (datasets ! task))
       (replicate (length (images (train (datasets ! task)))) 1) (task_labels ! task)
       (samples_per_class cfg)"

definition replay_sample ::
  "'x env \<Rightarrow> config \<Rightarrow> 'x dataset list \<Rightarrow> nat list list \<Rightarrow> nat \<Rightarrow> nat \<Rightarrow> 'x split option" where
  "replay_sample env cfg datasets task_labels run task =
     sample_from_dataset env run task ReplayBuffer (train (datasets ! task))
       (replicate (length (images (train (datasets ! task)))) 1) (task_labels ! task)
       (samples_per_class cfg)"

definition buffer_size :: "'x split option \<Rightarrow> nat" where
  "buffer_size b = (case b of None \<Rightarrow> 0 | Some s \<Rightarrow> length (images s))"

definition buffer_images :: "'x split option \<Rightarrow> 'x list" where
  "buffer_images b = (case b of None \<Rightarrow> [] | Some s \<Rightarrow> images s)"

text \<open>The size of the replay buffer when a task is to begin, if the run gets there.\<close>

definition replay_buffer_size_before ::
  "'x env \<Rightarrow> config \<Rightarrow> 'x dataset list \<Rightarrow> attrs \<Rightarrow> nat list list \<Rightarrow> nat \<Rightarrow> nat
     \<Rightarrow> error + nat" where
  "replay_buffer_size_before env cfg datasets class_attrs task_labels run task =
     (case snd (tasks_before env cfg datasets class_attrs task_labels run task) of
        Inl e \<Rightarrow> Inl e
      | Inr st \<Rightarrow> Inr (buffer_size (last_task st)))"

text \<open>
  The array \<^verbatim>\<open>loss_world\<close> after a check on a loss, as lines 333-335 update it, and the array
  when iteration \<open>c\<close> of a task begins, the checks of the earlier iterations of the task made
  on the losses \<open>L\<close> from the array \<open>lw\<close> with which the task begins.
\<close>

definition record_loss :: "pyfloat list \<Rightarrow> pyfloat \<Rightarrow> pyfloat list" where
  "record_loss lw loss =
     (if pf_less loss (np_max lw) then lw[np_argmax lw := loss] else lw)"

definition loss_world_at :: "(nat \<Rightarrow> pyfloat) \<Rightarrow> pyfloat list \<Rightarrow> nat \<Rightarrow> pyfloat list" where
  "loss_world_at L lw c =
     foldl (\<lambda>w k. if check_due k then record_loss w (L k) else w) lw [0..<c]"

text \<open>
  What the script records for a task of a run is an evaluation of all the tasks: in
  fixed-iteration or cross-validation mode (line 392), the list that the Evaluator returns on
  all the data sets and all the task labels with the model as it is after the task, the
  evaluation of line 391 on the training data having returned too; in
  single-epoch mode without cross validation (lines 251 and 386), a non-empty list of
  snapshots, each of them such a list for the model at some point of the task.
\<close>

definition evaluated_on_all ::
  "'x env \<Rightarrow> config \<Rightarrow> 'x dataset list \<Rightarrow> attrs \<Rightarrow> nat list list \<Rightarrow> nat \<Rightarrow> nat
     \<Rightarrow> task_evals \<Rightarrow> bool" where
  "evaluated_on_all env cfg datasets class_attrs task_labels run task e \<longleftrightarrow>
     (case e of
        Accs a \<Rightarrow>
          \<not> (train_single_epoch cfg \<and> \<not> cross_validate_mode cfg) \<and>
          test_task_sequence (scorer env run task None) datasets class_attrs
            (num_classes_per_task cfg) task_labels (cross_validate_mode cfg)
            (eval_single_head cfg) = Inr a \<and>
          (\<exists>b. test_task_sequence (scorer env run task None) datasets class_attrs
                 (num_classes_per_task cfg) task_labels True (eval_single_head cfg) = Inr b)
      | Snapshots ss \<Rightarrow>
          train_single_epoch cfg \<and> \<not> cross_validate_mode cfg \<and> ss \<noteq> [] \<and>
          (\<forall>a\<in>set ss. \<exists>point.
             test_task_sequence (scorer env run task point) datasets class_attrs
               (num_classes_per_task cfg) task_labels (cross_validate_mode cfg)
               (eval_single_head cfg) = Inr a))"

section \<open>A small environment for concrete runs\<close>

text \<open>
  Data sets of \<open>n\<close> images of one class, a backend that classifies everything correctly and
  returns the given losses, the identity as shuffle, unit sample weights, and utilities
  modelled as follows.

  Modelled from the spec: \<^verbatim>\<open>sample_from_dataset\<close> and \<^verbatim>\<open>concatenate_datasets\<close> of
  \<^verbatim>\<open>utils.utils\<close>, which are not part of the script. The replay buffer is "drawn from every
  completed task, bounded by a per-class sample budget" and "concatenated with the current
  task's training data": \<open>sample_first\<close> takes, for each label of the task, the first
  \<open>k\<close> examples of that class (nothing at all gives \<open>None\<close>), and the concatenation appends
  the stored samples to the data of the task.
\<close>

definition example_dataset :: "nat \<Rightarrow> nat \<Rightarrow> nat dataset" where
  "example_dataset n c =
     \<lparr> train = \<lparr> images = [0..<n], labels = map (\<lambda>_. c) [0..<n] \<rparr>,
       test = \<lparr> images = [0..<n], labels = map (\<lambda>_. c) [0..<n] \<rparr> \<rparr>"

definition sample_first :: "'x split \<Rightarrow> nat list \<Rightarrow> nat \<Rightarrow> 'x split option" where
  "sample_first s labs k =
     (let picked = concat (map (\<lambda>c. take k (filter (\<lambda>e. snd e = c) (zip (images s) (labels s)))) labs)
      in if picked = [] then None
         else Some \<lparr> images = map fst picked, labels = map snd picked \<rparr>)"

definition example_env :: "importance_method \<Rightarrow> (nat \<Rightarrow> nat \<Rightarrow> nat \<Rightarrow> pyfloat) \<Rightarrow> nat env" where
  "example_env m L =
     \<lparr> imp_method = m, fisher_update_after = 50, reg_loss = L,
       scorer = (\<lambda>_ _ _ _ _ _. True),
       shuffle = (\<lambda>_ _ n. [0..<n]),
       get_sample_weights = (\<lambda>ys _. replicate (length ys) 1),
       concatenate_datasets = (\<lambda>cur prev. case prev of
            None \<Rightarrow> Inr cur
          | Some p \<Rightarrow> Inr \<lparr> images = images cur @ images p, labels = labels cur @ labels p \<rparr>),
       sample_from_dataset = (\<lambda>_ _ _ s _ labs k. sample_first s labs k) \<rparr>"

definition example_config :: "int \<Rightarrow> config" where
  "example_config n =
     \<lparr> cross_validate_mode = False, train_single_epoch = False, eval_single_head = False,
       do_sampling = False, samples_per_class = 1, train_iters = n, batch_size = 2,
       num_runs = 1, num_classes_per_task = 1 \<rparr>"

section \<open>Slices, masks and chunked scoring: auxiliary facts\<close>

lemma py_slice_nat: "py_slice xs (int a) (int b) = take (b - a) (drop a xs)"
  by (cases "a < length xs") (auto simp: py_slice_def slice_index_def Let_def min_def)

lemma np_sum_correct:
  "np_sum (correct_predictions cp m xs ys) = length (filter (\<lambda>(x, y). cp m x y) (zip xs ys))"
  by (simp add: np_sum_def correct_predictions_def filter_map comp_def)

lemma np_sum_slices:
  "np_sum (correct_predictions cp m (py_slice xs (int a) (int b)) (py_slice ys (int a) (int b)))
   = length (filter (\<lambda>(x, y). cp m x y) (take (b - a) (drop a (zip xs ys))))"
  unfolding py_slice_nat by (simp add: np_sum_correct take_zip drop_zip)

lemma chunk_loop_Some:
  "chunk_loop cp (Some m) xs ys [a..<a + d] t =
     Inr (t + length (filter (\<lambda>(x, y). cp m x y)
                 (take (samples_at_a_time * d) (drop (samples_at_a_time * a) (zip xs ys)))))"
proof (induction d arbitrary: a t)
  case 0
  then show ?case by simp
next
  case (Suc d)
  have u: "[a..<a + Suc d] = a # [Suc a..<Suc a + d]"
    by (simp add: upt_conv_Cons)
  have t: "take (samples_at_a_time * Suc d) (drop (samples_at_a_time * a) (zip xs ys)) =
           take samples_at_a_time (drop (samples_at_a_time * a) (zip xs ys)) @
           take (samples_at_a_time * d) (drop (samples_at_a_time * Suc a) (zip xs ys))"
    by (simp add: take_add add.commute)
  have c: "chunk_loop cp (Some m) xs ys (a # [Suc a..<Suc a + d]) t =
           chunk_loop cp (Some m) xs ys [Suc a..<Suc a + d]
             (t + length (filter (\<lambda>(x, y). cp m x y)
                   (take samples_at_a_time (drop (a * samples_at_a_time) (zip xs ys)))))"
    unfolding chunk_loop.simps option.case Let_def np_sum_slices by simp
  show ?case
    unfolding u t c Suc.IH by (simp add: mult.commute)
qed

lemma chunk_loop_None:
  "chunk_loop cp None xs ys ks t = (if ks = [] then Inr t else Inl (UnboundLocalError ''masked_class_attrs''))"
  by (cases ks) auto

lemma attribute_mask_length: "length (attribute_mask ca n t) = length ca"
  unfolding attribute_mask_def Let_def py_slice_nat
  by (auto simp: set_rows_def zeros_like_def)

lemma attribute_mask_nth:
  "r < length ca \<Longrightarrow> attribute_mask ca n t ! r =
      (if t * n \<le> r \<and> r < (t + 1) * n then ca ! r else map (\<lambda>_. 0) (ca ! r))"
  unfolding attribute_mask_def Let_def py_slice_nat
  by (auto simp: set_rows_def zeros_like_def nth_append min_def)

lemma count_chunks_residual:
  fixes zs :: "'a list"
  assumes "length zs \<le> n"
  shows "length (filter P (take (samples_at_a_time * (n div samples_at_a_time)) zs)) +
         length (filter P (take (n mod samples_at_a_time)
                    (drop (samples_at_a_time * (n div samples_at_a_time)) zs))) =
         length (filter P zs)"
proof -
  let ?a = "samples_at_a_time * (n div samples_at_a_time)"
  let ?b = "n mod samples_at_a_time"
  have "take (?a + ?b) zs = take ?a zs @ take ?b (drop ?a zs)"
    by (rule take_add)
  moreover have "?a + ?b = n" by simp
  moreover have "take n zs = zs" using assms by simp
  ultimately have e: "take ?a zs @ take ?b (drop ?a zs) = zs" by simp
  have "length (filter P (take ?a zs)) + length (filter P (take ?b (drop ?a zs))) =
        length (filter P (take ?a zs @ take ?b (drop ?a zs)))"
    by simp
  then show ?thesis unfolding e .
qed

lemma test_task_multi_head:
  assumes "task < length test_data"
    and "samples_at_a_time \<le> length (images (if cv then train (test_data ! task) else test (test_data ! task)))"
  shows "test_task cp test_data ca ncpt cv False task L =
     Inr (L\<lparr>var_masked_class_attrs := Some (attribute_mask ca ncpt task),
            var_i := Some (length (images (if cv then train (test_data ! task) else test (test_data ! task))) div samples_at_a_time - 1),
            list_acc := list_acc L @
              [accuracy (one_pass_corrects cp (attribute_mask ca ncpt task)
                           (if cv then train (test_data ! task) else test (test_data ! task)))
                        (length (images (if cv then train (test_data ! task) else test (test_data ! task))))]\<rparr>)"
proof -
  define s where "s = (if cv then train (test_data ! task) else test (test_data ! task))"
  define n where "n = length (images s)"
  define k where "k = n div samples_at_a_time"
  define m where "m = attribute_mask ca ncpt task"
  define zs where "zs = zip (images s) (labels s)"
  have kpos: "0 < k" using assms(2) unfolding k_def n_def s_def samples_at_a_time_def by simp
  have len: "length zs \<le> n" by (simp add: zs_def n_def)
  have cl: "chunk_loop cp (Some m) (images s) (labels s) [0..<k] 0 =
        Inr (length (filter (\<lambda>(x, y). cp m x y) (take (samples_at_a_time * k) zs)))"
    using chunk_loop_Some[of cp m "images s" "labels s" 0 k 0] by (simp add: zs_def)
  have res: "np_sum (correct_predictions cp m
               (py_slice (images s) (int ((k - 1 + 1) * samples_at_a_time))
                    (int ((k - 1 + 1) * samples_at_a_time + n mod samples_at_a_time)))
               (py_slice (labels s) (int ((k - 1 + 1) * samples_at_a_time))
                    (int ((k - 1 + 1) * samples_at_a_time + n mod samples_at_a_time)))) =
             length (filter (\<lambda>(x, y). cp m x y)
                (take (n mod samples_at_a_time) (drop (samples_at_a_time * k) zs)))"
    unfolding np_sum_slices using kpos by (simp add: zs_def mult.commute)
  have tot: "length (filter (\<lambda>(x, y). cp m x y) (take (samples_at_a_time * k) zs)) +
             length (filter (\<lambda>(x, y). cp m x y)
                (take (n mod samples_at_a_time) (drop (samples_at_a_time * k) zs))) =
             one_pass_corrects cp m s"
    unfolding k_def using count_chunks_residual[OF len]
    by (simp add: one_pass_corrects_def np_sum_correct zs_def)
  show ?thesis
    unfolding test_task_def py_index_def Let_def
    using assms(1) kpos cl res tot
    unfolding s_def[symmetric] n_def[symmetric] k_def[symmetric] m_def[symmetric]
    apply (simp add: s_def[symmetric] n_def[symmetric] k_def[symmetric] m_def[symmetric])
    done
qed

lemma test_task_length:
  "test_task cp td ca ncpt cv single task L = Inr L' \<Longrightarrow>
     length (list_acc L') = Suc (length (list_acc L))"
  unfolding test_task_def Let_def
  by (auto split: sum.splits option.splits if_splits)

lemma test_tasks_loop_length:
  "test_tasks_loop cp td ca ncpt cv single ts L = Inr L' \<Longrightarrow>
     length (list_acc L') = length (list_acc L) + length ts"
proof (induction ts arbitrary: L)
  case Nil
  then show ?case by simp
next
  case (Cons t ts)
  then show ?case
    by (auto split: sum.splits dest!: test_task_length)
qed

lemma test_task_sequence_length:
  "test_task_sequence cp td ca ncpt test_tasks cv single = Inr accs \<Longrightarrow>
     length accs = length test_tasks"
  unfolding test_task_sequence_def
  by (auto split: sum.splits dest!: test_tasks_loop_length simp: test_locals_init_def)

lemma test_task_single_head_unbound:
  assumes "var_masked_class_attrs L = None"
  shows "\<exists>e. test_task cp td ca ncpt cv True task L = Inl e"
  using assms unfolding test_task_def Let_def
  by (auto split: sum.splits option.splits simp: chunk_loop_None)

lemma test_task_sequence_single_head_fails:
  assumes "test_tasks \<noteq> []"
  shows "\<exists>e. test_task_sequence cp td ca ncpt test_tasks cv True = Inl e"
proof -
  obtain n where n: "length test_tasks = Suc n" using assms by (cases test_tasks) auto
  have u: "[0..<Suc n] = 0 # [1..<Suc n]" by (simp add: upt_conv_Cons)
  have "var_masked_class_attrs test_locals_init = None"
    by (simp add: test_locals_init_def)
  from test_task_single_head_unbound[OF this, of cp td ca ncpt cv 0]
  obtain e where "test_task cp td ca ncpt cv True 0 test_locals_init = Inl e" ..
  then show ?thesis
    unfolding test_task_sequence_def n u by simp
qed

lemma test_tasks_loop_multi_head:
  assumes "a + d \<le> length td"
    and "\<forall>k<a + d. a \<le> k \<longrightarrow> samples_at_a_time \<le> length (images (if cv then train (td ! k) else test (td ! k)))"
  shows "\<exists>L'. test_tasks_loop cp td ca ncpt cv False [a..<a + d] L = Inr L' \<and>
           list_acc L' = list_acc L @ map (task_accuracy cp td ca ncpt cv) [a..<a + d]"
  using assms
proof (induction d arbitrary: a L)
  case 0
  then show ?case by simp
next
  case (Suc d)
  have u: "[a..<a + Suc d] = a # [Suc a..<Suc a + d]"
    by (simp add: upt_conv_Cons)
  have a: "a < length td" using Suc.prems by simp
  have big: "samples_at_a_time \<le> length (images (if cv then train (td ! a) else test (td ! a)))"
    using Suc.prems by simp
  note step = test_task_multi_head[OF a big, of cp ca ncpt L]
  have "Suc a + d \<le> length td" using Suc.prems by simp
  moreover have "\<forall>k<Suc a + d. Suc a \<le> k \<longrightarrow>
      samples_at_a_time \<le> length (images (if cv then train (td ! k) else test (td ! k)))"
    using Suc.prems by simp
  ultimately obtain L' where
    "test_tasks_loop cp td ca ncpt cv False [Suc a..<Suc a + d]
       (L\<lparr>var_masked_class_attrs := Some (attribute_mask ca ncpt a),
            var_i := Some (length (images (if cv then train (td ! a) else test (td ! a))) div samples_at_a_time - 1),
            list_acc := list_acc L @
              [accuracy (one_pass_corrects cp (attribute_mask ca ncpt a)
                           (if cv then train (td ! a) else test (td ! a)))
                        (length (images (if cv then train (td ! a) else test (td ! a))))]\<rparr>) = Inr L'
     \<and> list_acc L' = (list_acc L @
              [accuracy (one_pass_corrects cp (attribute_mask ca ncpt a)
                           (if cv then train (td ! a) else test (td ! a)))
                        (length (images (if cv then train (td ! a) else test (td ! a))))]) @ map (task_accuracy cp td ca ncpt cv) [Suc a..<Suc a + d]"
    using Suc.IH[of "Suc a"] by fastforce
  then show ?case
    unfolding u by (simp add: step task_accuracy_def Let_def)
qed

lemma test_task_sequence_multi_head:
  assumes "length test_tasks \<le> length td"
    and "\<forall>k<length test_tasks. samples_at_a_time \<le> length (images (if cv then train (td ! k) else test (td ! k)))"
  shows "test_task_sequence cp td ca ncpt test_tasks cv False =
           Inr (map (task_accuracy cp td ca ncpt cv) [0..<length test_tasks])"
  using test_tasks_loop_multi_head[of 0 "length test_tasks" td cv cp ca ncpt test_locals_init] assms
  unfolding test_task_sequence_def
  by (auto simp: test_locals_init_def)

lemma py_slice_length_in_range:
  assumes "0 \<le> a" "0 \<le> k" "a + k \<le> int (length xs)"
  shows "length (py_slice xs a (a + k)) = nat k"
proof -
  have lo: "slice_index (length xs) a = nat a"
    using assms by (simp add: slice_index_def)
  have hi: "slice_index (length xs) (a + k) = nat a + nat k"
    using assms by (simp add: slice_index_def nat_add_distrib)
  have "nat a + nat k \<le> length xs" using assms by linarith
  then show ?thesis
    unfolding py_slice_def Let_def lo hi by simp
qed

section \<open>Actions and traces: auxiliary facts\<close>

lemma fst_ok [simp]: "fst (ok a) = []" and snd_ok [simp]: "snd (ok a) = Inr a"
  by (simp_all add: ok_def)

lemma fst_log [simp]: "fst (log ev) = [ev]" and snd_log [simp]: "snd (log ev) = Inr ()"
  by (simp_all add: log_def)

lemma fst_of_result [simp]: "fst (of_result r) = []" and snd_of_result [simp]: "snd (of_result r) = r"
  by (simp_all add: of_result_def)

lemma fst_and_then:
  "fst (and_then m f) = fst m @ (case snd m of Inl e \<Rightarrow> [] | Inr a \<Rightarrow> fst (f a))"
  by (simp add: and_then_def split: sum.splits)

lemma snd_and_then:
  "snd (and_then m f) = (case snd m of Inl e \<Rightarrow> Inl e | Inr a \<Rightarrow> snd (f a))"
  by (simp add: and_then_def split: sum.splits)

lemma fst_sess_run [simp]: "fst (sess_run run task iters ops) = [SessRun run task iters ops]"
  and snd_sess_run [simp]: "snd (sess_run run task iters ops) = Inr ()"
  by (simp_all add: sess_run_def)

lemma fst_evaluate [simp]:
  "fst (evaluate env cfg datasets ca task_labels run task point cv) = [Evaluate run task point cv]"
  by (simp add: evaluate_def fst_and_then)

lemma trace_and_then:
  assumes "append_closed Q" "Q (fst m)" "\<And>x. snd m = Inr x \<Longrightarrow> Q (fst (f x))"
  shows "Q (fst (and_then m f))"
  using assms by (cases "snd m") (auto simp: fst_and_then append_closed_def)

lemma trace_ok: "append_closed Q \<Longrightarrow> Q (fst (ok a))"
  by (simp add: append_closed_def)

lemma trace_of_result: "append_closed Q \<Longrightarrow> Q (fst (of_result r))"
  by (simp add: append_closed_def)

lemma trace_for_each:
  assumes "append_closed Q" "\<And>k s. k \<in> set ks \<Longrightarrow> Q (fst (body k s))"
  shows "Q (fst (for_each ks body s))"
  using assms(2)
proof (induction ks arbitrary: s)
  case Nil
  then show ?case using assms(1) by (simp add: append_closed_def)
next
  case (Cons k ks)
  show ?case
    unfolding for_each.simps
    by (rule trace_and_then[OF assms(1)]) (simp_all add: Cons)
qed

lemma trace_for_break:
  assumes "append_closed Q" "\<And>k s. k \<in> set ks \<Longrightarrow> Q (fst (body k s))"
  shows "Q (fst (for_break ks body s))"
  using assms(2)
proof (induction ks arbitrary: s)
  case Nil
  then show ?case using assms(1) by (simp add: append_closed_def)
next
  case (Cons k ks)
  have e: "Q []" using assms(1) by (simp add: append_closed_def)
  show ?case
    unfolding for_break.simps
    by (rule trace_and_then[OF assms(1)]) (simp_all add: Cons e)
qed

lemma trace_train_iteration:
  assumes c: "append_closed Q"
    and ev: "\<And>point cv. Q [Evaluate run task point cv]"
    and ops: "\<And>mem. Q (fst (train_ops env run task iters mem))"
  shows "Q (fst (train_iteration env cfg datasets ca task_labels run task loc iters st))"
proof -
  have e: "Q []" using c by (simp add: append_closed_def)
  show ?thesis
    unfolding train_iteration_def Let_def
    by (intro trace_and_then[OF c] ops) (auto simp: ev e intro!: trace_and_then[OF c])
qed

lemma trace_train_loop:
  assumes c: "append_closed Q"
    and ev: "\<And>point cv. Q [Evaluate run task point cv]"
    and ops: "\<And>iters mem. Q (fst (train_ops env run task iters mem))"
  shows "Q (fst (train_loop env cfg datasets ca task_labels run task loc st))"
  unfolding train_loop_def
  by (rule trace_for_break[OF c]) (rule trace_train_iteration[OF c ev ops])

lemma trace_prepare_task:
  assumes c: "append_closed Q" and ev: "Q [Restore run task]"
  shows "Q (fst (prepare_task env cfg datasets ca task_labels run task st))"
proof -
  have e: "Q []" using c by (simp add: append_closed_def)
  show ?thesis
    unfolding prepare_task_def Let_def
    by (intro trace_and_then[OF c]) (auto simp: ev e)
qed

lemma trace_task_boundary:
  assumes c: "append_closed Q" and ev: "Q [TaskUpdates run task]"
  shows "Q (fst (task_boundary env cfg datasets task_labels run task st))"
proof -
  have e: "Q []" using c by (simp add: append_closed_def)
  show ?thesis
    unfolding task_boundary_def Let_def
    by (auto simp: ev e intro!: trace_and_then[OF c])
qed

lemma trace_finish_task:
  assumes c: "append_closed Q" and ev: "\<And>point cv. Q [Evaluate run task point cv]"
    and ro: "Q [ResetOptimizer run task]"
  shows "Q (fst (finish_task env cfg datasets ca task_labels run task st))"
proof -
  have e: "Q []" using c by (simp add: append_closed_def)
  show ?thesis
    unfolding finish_task_def Let_def
    by (intro trace_and_then[OF c]) (auto simp: ev ro e intro!: trace_and_then[OF c])
qed

lemma trace_train_task:
  assumes c: "append_closed Q"
    and ev: "\<And>e. (\<forall>r t i ops. e \<noteq> SessRun r t i ops) \<Longrightarrow> Q [e]"
    and ops: "\<And>iters mem. Q (fst (train_ops env run task iters mem))"
  shows "Q (fst (train_task env cfg datasets ca task_labels run task st))"
  unfolding train_task_def
  by (intro trace_and_then[OF c] trace_prepare_task[OF c] trace_train_loop[OF c]
        trace_task_boundary[OF c] trace_finish_task[OF c] ev ops) simp_all

lemma trace_train_run:
  assumes c: "append_closed Q"
    and ev: "\<And>e. (\<forall>r t i ops. e \<noteq> SessRun r t i ops) \<Longrightarrow> Q [e]"
    and ops: "\<And>task iters mem. Q (fst (train_ops env run task iters mem))"
  shows "Q (fst (train_run env cfg datasets ca task_labels run))"
proof -
  have e: "Q []" using c by (simp add: append_closed_def)
  show ?thesis
    unfolding train_run_def tasks_before_def
    by (intro trace_and_then[OF c] trace_for_each[OF c] trace_train_task[OF c] ev ops)
       (simp_all add: e ev)
qed

lemma trace_train_task_sequence:
  assumes c: "append_closed Q"
    and ev: "\<And>e. (\<forall>r t i ops. e \<noteq> SessRun r t i ops) \<Longrightarrow> Q [e]"
    and ops: "\<And>run task iters mem. Q (fst (train_ops env run task iters mem))"
  shows "Q (fst (train_task_sequence env cfg datasets ca task_labels))"
proof -
  have e: "Q []" using c by (simp add: append_closed_def)
  show ?thesis
    unfolding train_task_sequence_def
    by (intro trace_and_then[OF c] trace_for_each[OF c] trace_train_run[OF c] ev ops)
       (simp_all add: e)
qed

section \<open>The schedule of EWC: auxiliary facts\<close>

lemma ewc_train_ops:
  assumes "imp_method env = EWC" "fisher_update_after env = 50"
  shows "train_ops env run task iters mem = (fisher_schedule run task iters, Inr ())"
proof -
  have m: "((int iters + 1) mod 50 = 0) = (iters mod 50 = 49)"
    by presburger
  show ?thesis
    using assms m
    by (auto simp: train_ops_def fisher_schedule_def py_mod_def and_then_def of_result_def
          ok_def sess_run_def log_def)
qed

text \<open>Lifting "the event does not occur" and "the event occurs at most once".\<close>

lemma absent_closed: "append_closed (\<lambda>tr. x \<notin> set tr)"
  by (simp add: append_closed_def)

lemma count_absent: "x \<notin> set tr \<Longrightarrow> count_list tr x \<le> 1"
  by (simp add: count_list_0_iff[THEN iffD2])

lemma once_and_then_left:
  assumes "count_list (fst m) x \<le> 1" "\<And>y. x \<notin> set (fst (f y))"
  shows "count_list (fst (and_then m f)) x \<le> 1"
  using assms by (cases "snd m") (auto simp: fst_and_then count_list_0_iff[THEN iffD2])

lemma once_and_then_right:
  assumes "x \<notin> set (fst m)" "\<And>y. count_list (fst (f y)) x \<le> 1"
  shows "count_list (fst (and_then m f)) x \<le> 1"
  using assms by (cases "snd m") (auto simp: fst_and_then count_list_0_iff[THEN iffD2])

lemma once_for_each:
  assumes "distinct ks"
    and "\<And>k s. k \<in> set ks \<Longrightarrow> k \<noteq> k0 \<Longrightarrow> x \<notin> set (fst (body k s))"
    and "\<And>s. count_list (fst (body k0 s)) x \<le> 1"
  shows "count_list (fst (for_each ks body s)) x \<le> 1"
  using assms(1,2)
proof (induction ks arbitrary: s)
  case Nil
  then show ?case by simp
next
  case (Cons k ks)
  show ?case
  proof (cases "k = k0")
    case True
    have "\<And>j s. j \<in> set ks \<Longrightarrow> x \<notin> set (fst (body j s))"
      using Cons.prems True by auto
    then have "\<And>s. x \<notin> set (fst (for_each ks body s))"
      by (rule trace_for_each[OF absent_closed])
    then show ?thesis
      unfolding for_each.simps True
      by (intro once_and_then_left assms(3))
  next
    case False
    have "\<And>s. x \<notin> set (fst (body k s))" using Cons.prems False by simp
    moreover have "\<And>s. count_list (fst (for_each ks body s)) x \<le> 1"
      using Cons.IH Cons.prems by simp
    ultimately show ?thesis
      unfolding for_each.simps by (intro once_and_then_right)
  qed
qed

lemma once_for_break:
  assumes "distinct ks"
    and "\<And>k s. k \<in> set ks \<Longrightarrow> k \<noteq> k0 \<Longrightarrow> x \<notin> set (fst (body k s))"
    and "\<And>s. count_list (fst (body k0 s)) x \<le> 1"
  shows "count_list (fst (for_break ks body s)) x \<le> 1"
  using assms(1,2)
proof (induction ks arbitrary: s)
  case Nil
  then show ?case by simp
next
  case (Cons k ks)
  show ?case
  proof (cases "k = k0")
    case True
    have "\<And>j s. j \<in> set ks \<Longrightarrow> x \<notin> set (fst (body j s))"
      using Cons.prems True by auto
    then have "\<And>s. x \<notin> set (fst (for_break ks body s))"
      by (rule trace_for_break[OF absent_closed])
    then show ?thesis
      unfolding for_break.simps True
      by (intro once_and_then_left assms(3)) simp
  next
    case False
    have "\<And>s. x \<notin> set (fst (body k s))" using Cons.prems False by simp
    moreover have "\<And>s. count_list (fst (for_break ks body s)) x \<le> 1"
      using Cons.IH Cons.prems by simp
    ultimately show ?thesis
      unfolding for_break.simps by (intro once_and_then_right) simp_all
  qed
qed

lemma all_events_closed: "append_closed (\<lambda>tr. \<forall>ev\<in>set tr. P ev)"
  by (auto simp: append_closed_def)

lemma block_closed:
  fixes a :: "nat \<Rightarrow> nat \<Rightarrow> nat \<Rightarrow> event" and b :: "nat \<Rightarrow> nat \<Rightarrow> nat \<Rightarrow> event list"
  shows "append_closed (\<lambda>tr. \<forall>run task iters. a run task iters \<in> set tr \<longrightarrow>
      (\<exists>pre post. tr = pre @ b run task iters @ post))"
  unfolding append_closed_def
proof (intro conjI allI impI)
  fix x y :: "event list" and run task iters :: nat
  assume x: "\<forall>run task iters. a run task iters \<in> set x \<longrightarrow>
      (\<exists>pre post. x = pre @ b run task iters @ post)"
    and y: "\<forall>run task iters. a run task iters \<in> set y \<longrightarrow>
      (\<exists>pre post. y = pre @ b run task iters @ post)"
    and m: "a run task iters \<in> set (x @ y)"
  from m consider "a run task iters \<in> set x" | "a run task iters \<in> set y" by auto
  then show "\<exists>pre post. x @ y = pre @ b run task iters @ post"
  proof cases
    case 1
    with x obtain pre post where "x = pre @ b run task iters @ post" by blast
    then have "x @ y = pre @ b run task iters @ (post @ y)" by simp
    then show ?thesis by blast
  next
    case 2
    with y obtain pre post where "y = pre @ b run task iters @ post" by blast
    then have "x @ y = (x @ pre) @ b run task iters @ post" by simp
    then show ?thesis by blast
  qed
qed simp

lemma ewc_events:
  assumes "imp_method env = EWC" "fisher_update_after env = 50"
  shows "\<forall>ev\<in>set (fst (train_task_sequence env cfg datasets ca task_labels)).
           \<forall>run task iters ops. ev = SessRun run task iters ops \<longrightarrow>
             (ops = [SetInitialRunningFisher] \<and> task = 0 \<and> iters = 0 \<or>
              ops = [SetRunningFisher] \<and> iters mod 50 = 49 \<or>
              ops = [ResetTmpFisher] \<and> iters mod 50 = 49 \<or>
              ops = [SetTmpFisher, Train, RegLoss])"
  by (rule trace_train_task_sequence[OF all_events_closed])
     (auto simp: ewc_train_ops[OF assms] fisher_schedule_def)

lemma ewc_blocks:
  assumes "imp_method env = EWC" "fisher_update_after env = 50"
  shows "\<forall>run task iters.
           SessRun run task iters [SetTmpFisher, Train, RegLoss]
             \<in> set (fst (train_task_sequence env cfg datasets ca task_labels)) \<longrightarrow>
           (\<exists>pre post. fst (train_task_sequence env cfg datasets ca task_labels) =
               pre @ fisher_schedule run task iters @ post)"
proof (rule trace_train_task_sequence[OF block_closed])
  fix e :: event
  assume "\<forall>r t i ops. e \<noteq> SessRun r t i ops"
  then show "\<forall>run task iters. SessRun run task iters [SetTmpFisher, Train, RegLoss] \<in> set [e] \<longrightarrow>
      (\<exists>pre post. [e] = pre @ fisher_schedule run task iters @ post)"
    by auto
next
  fix run task iters :: nat and mem :: "'a split option list"
  have "\<exists>pre post. fisher_schedule run task iters = pre @ fisher_schedule r t i @ post"
    if "SessRun r t i [SetTmpFisher, Train, RegLoss] \<in> set (fisher_schedule run task iters)"
    for r t i
  proof -
    from that have "r = run \<and> t = task \<and> i = iters"
      by (auto simp: fisher_schedule_def split: if_splits)
    then have "fisher_schedule run task iters = [] @ fisher_schedule r t i @ []" by simp
    then show ?thesis by blast
  qed
  then show "\<forall>r t i. SessRun r t i [SetTmpFisher, Train, RegLoss]
         \<in> set (fst (train_ops env run task iters mem)) \<longrightarrow>
      (\<exists>pre post. fst (train_ops env run task iters mem) = pre @ fisher_schedule r t i @ post)"
    by (simp add: ewc_train_ops[OF assms])
qed

text \<open>The initialisation of the running Fisher estimate occurs at most once in a run.\<close>

lemma ewc_init_absent_ops:
  assumes "imp_method env = EWC" "fisher_update_after env = 50"
    and "\<not> (run = r \<and> task = 0 \<and> iters = 0)"
  shows "SessRun r 0 0 [SetInitialRunningFisher] \<notin> set (fst (train_ops env run task iters mem))"
  using assms(3) by (auto simp: ewc_train_ops[OF assms(1,2)] fisher_schedule_def)

lemma ewc_init_once_ops:
  assumes "imp_method env = EWC" "fisher_update_after env = 50"
  shows "count_list (fst (train_ops env run task iters mem))
           (SessRun r 0 0 [SetInitialRunningFisher]) \<le> 1"
  by (auto simp: ewc_train_ops[OF assms(1,2)] fisher_schedule_def)

lemma ewc_init_once_iteration:
  assumes "imp_method env = EWC" "fisher_update_after env = 50"
  shows "count_list (fst (train_iteration env cfg datasets ca task_labels run task loc iters st))
           (SessRun r 0 0 [SetInitialRunningFisher]) \<le> 1"
  unfolding train_iteration_def Let_def
  apply (rule once_and_then_right)
   apply (simp add: fst_and_then split: sum.splits)
  apply (rule once_and_then_right)
   apply simp
  apply (rule once_and_then_left)
   apply (rule ewc_init_once_ops[OF assms])
  apply simp
  done

lemma ewc_init_once_loop:
  assumes "imp_method env = EWC" "fisher_update_after env = 50"
  shows "count_list (fst (train_loop env cfg datasets ca task_labels run task loc st))
           (SessRun r 0 0 [SetInitialRunningFisher]) \<le> 1"
  unfolding train_loop_def
proof (rule once_for_break[where ?k0.0 = 0])
  show "distinct [0..<nat (num_iters loc)]" by simp
next
  fix k s assume "k \<noteq> (0::nat)"
  then show "SessRun r 0 0 [SetInitialRunningFisher]
       \<notin> set (fst (train_iteration env cfg datasets ca task_labels run task loc k s))"
    by (intro trace_train_iteration[OF absent_closed] ewc_init_absent_ops[OF assms]) simp_all
next
  fix s
  show "count_list (fst (train_iteration env cfg datasets ca task_labels run task loc 0 s))
           (SessRun r 0 0 [SetInitialRunningFisher]) \<le> 1"
    by (rule ewc_init_once_iteration[OF assms])
qed

lemma ewc_init_once_task:
  assumes "imp_method env = EWC" "fisher_update_after env = 50"
  shows "count_list (fst (train_task env cfg datasets ca task_labels run task st))
           (SessRun r 0 0 [SetInitialRunningFisher]) \<le> 1"
  unfolding train_task_def
  apply (rule once_and_then_right)
   apply (rule trace_prepare_task[OF absent_closed], simp)
  apply (rule once_and_then_left)
   apply (rule ewc_init_once_loop[OF assms])
  apply (rule trace_and_then[OF absent_closed])
   apply (rule trace_task_boundary[OF absent_closed], simp)
  apply (rule trace_finish_task[OF absent_closed], simp_all)
  done

lemma ewc_init_once_run:
  assumes "imp_method env = EWC" "fisher_update_after env = 50"
  shows "count_list (fst (train_run env cfg datasets ca task_labels run))
           (SessRun r 0 0 [SetInitialRunningFisher]) \<le> 1"
  unfolding train_run_def tasks_before_def
  apply (rule once_and_then_right, simp)
  apply (rule once_and_then_right, simp)
  apply (rule once_and_then_left)
   apply (rule once_for_each[where ?k0.0 = 0])
     apply simp
    apply (rule trace_train_task[OF absent_closed])
     apply fastforce
    apply (rule ewc_init_absent_ops[OF assms], simp)
   apply (rule ewc_init_once_task[OF assms])
  apply simp
  done

lemma ewc_init_once:
  assumes "imp_method env = EWC" "fisher_update_after env = 50"
  shows "count_list (fst (train_task_sequence env cfg datasets ca task_labels))
           (SessRun r 0 0 [SetInitialRunningFisher]) \<le> 1"
  unfolding train_task_sequence_def
  apply (rule once_for_each[where ?k0.0 = r])
    apply simp
   apply (rule trace_and_then[OF absent_closed])
    apply (rule trace_train_run[OF absent_closed])
     apply fastforce
    apply (rule ewc_init_absent_ops[OF assms], simp)
   apply simp
  apply (rule once_and_then_left)
   apply (rule ewc_init_once_run[OF assms])
  apply simp
  done

text \<open>The events of an iteration occur in the trace together, as the schedule of that iteration.\<close>

lemma step_in_schedule:
  "SessRun run task iters [SetTmpFisher, Train, RegLoss] \<in> set (fisher_schedule run task iters)"
  by (simp add: fisher_schedule_def)

lemma init_in_schedule:
  "SessRun run 0 0 [SetInitialRunningFisher] \<in> set (fisher_schedule run 0 0)"
  by (simp add: fisher_schedule_def)

lemma count_list_once:
  assumes "count_list xs x \<le> 1"
  shows "count_list xs x = (if x \<in> set xs then 1 else 0)"
proof (cases "x \<in> set xs")
  case True
  then have "count_list xs x \<noteq> 0" by (simp add: count_list_0_iff)
  then have "0 < count_list xs x" by simp
  with assms True show ?thesis by simp
next
  case False
  then show ?thesis by (simp add: count_list_0_iff)
qed


lemma ewc_schedule_blocks:
  assumes "imp_method env = EWC" "fisher_update_after env = 50"
  shows "\<forall>run task iters.
           SessRun run task iters ops
             \<in> set (fst (train_task_sequence env cfg datasets ca task_labels)) \<longrightarrow>
           (\<exists>pre post. fst (train_task_sequence env cfg datasets ca task_labels) =
               pre @ fisher_schedule run task iters @ post)"
proof (rule trace_train_task_sequence[OF block_closed])
  fix e :: event
  assume "\<forall>r t i ops. e \<noteq> SessRun r t i ops"
  then show "\<forall>run task iters. SessRun run task iters ops \<in> set [e] \<longrightarrow>
      (\<exists>pre post. [e] = pre @ fisher_schedule run task iters @ post)"
    by auto
next
  fix run task iters :: nat and mem :: "'a split option list"
  have "\<exists>pre post. fisher_schedule run task iters = pre @ fisher_schedule r t i @ post"
    if "SessRun r t i ops \<in> set (fisher_schedule run task iters)"
    for r t i
  proof -
    from that have "r = run \<and> t = task \<and> i = iters"
      by (auto simp: fisher_schedule_def split: if_splits)
    then have "fisher_schedule run task iters = [] @ fisher_schedule r t i @ []" by simp
    then show ?thesis by blast
  qed
  then show "\<forall>r t i. SessRun r t i ops
         \<in> set (fst (train_ops env run task iters mem)) \<longrightarrow>
      (\<exists>pre post. fst (train_ops env run task iters mem) = pre @ fisher_schedule r t i @ post)"
    by (simp add: ewc_train_ops[OF assms])
qed

lemma ewc_step_of_event:
  assumes "imp_method env = EWC" "fisher_update_after env = 50"
    and "SessRun run task iters ops \<in> set (fst (train_task_sequence env cfg datasets ca task_labels))"
  shows "SessRun run task iters [SetTmpFisher, Train, RegLoss]
           \<in> set (fst (train_task_sequence env cfg datasets ca task_labels))"
proof -
  from ewc_schedule_blocks[OF assms(1,2), of ops cfg datasets ca task_labels] assms(3)
  obtain pre post where "fst (train_task_sequence env cfg datasets ca task_labels) =
      pre @ fisher_schedule run task iters @ post" by blast
  then show ?thesis using step_in_schedule[of run task iters] by simp
qed

lemma ewc_event_of_step:
  assumes "imp_method env = EWC" "fisher_update_after env = 50"
    and "SessRun run task iters [SetTmpFisher, Train, RegLoss]
           \<in> set (fst (train_task_sequence env cfg datasets ca task_labels))"
    and "e \<in> set (fisher_schedule run task iters)"
  shows "e \<in> set (fst (train_task_sequence env cfg datasets ca task_labels))"
proof -
  from ewc_blocks[OF assms(1,2), of cfg datasets ca task_labels] assms(3)
  obtain pre post where "fst (train_task_sequence env cfg datasets ca task_labels) =
      pre @ fisher_schedule run task iters @ post" by blast
  then show ?thesis using assms(4) by simp
qed

lemma ewc_init_count:
  assumes "imp_method env = EWC" "fisher_update_after env = 50"
  shows "count_list (fst (train_task_sequence env cfg datasets ca task_labels))
           (SessRun run 0 0 [SetInitialRunningFisher]) =
         (if SessRun run 0 0 [SetTmpFisher, Train, RegLoss]
               \<in> set (fst (train_task_sequence env cfg datasets ca task_labels))
          then 1 else 0)"
proof -
  have "(SessRun run 0 0 [SetInitialRunningFisher]
           \<in> set (fst (train_task_sequence env cfg datasets ca task_labels))) =
        (SessRun run 0 0 [SetTmpFisher, Train, RegLoss]
           \<in> set (fst (train_task_sequence env cfg datasets ca task_labels)))"
    using ewc_step_of_event[OF assms, of run 0 0 "[SetInitialRunningFisher]" cfg datasets ca task_labels]
      ewc_event_of_step[OF assms, of run 0 0 cfg datasets ca task_labels
         "SessRun run 0 0 [SetInitialRunningFisher]"] init_in_schedule[of run]
    by blast
  with count_list_once[OF ewc_init_once[OF assms, of cfg datasets ca task_labels run]]
  show ?thesis by simp
qed

lemma ewc_commit_iff:
  assumes "imp_method env = EWC" "fisher_update_after env = 50"
    and "ops = [SetRunningFisher] \<or> ops = [ResetTmpFisher]"
  shows "(SessRun run task iters ops
            \<in> set (fst (train_task_sequence env cfg datasets ca task_labels))) =
         (iters mod 50 = 49 \<and>
          SessRun run task iters [SetTmpFisher, Train, RegLoss]
            \<in> set (fst (train_task_sequence env cfg datasets ca task_labels)))"
proof
  assume m: "SessRun run task iters ops
      \<in> set (fst (train_task_sequence env cfg datasets ca task_labels))"
  from ewc_events[OF assms(1,2), of cfg datasets ca task_labels] m assms(3)
  have "iters mod 50 = 49" by auto
  with ewc_step_of_event[OF assms(1,2) m] show "iters mod 50 = 49 \<and>
          SessRun run task iters [SetTmpFisher, Train, RegLoss]
            \<in> set (fst (train_task_sequence env cfg datasets ca task_labels))" by simp
next
  assume a: "iters mod 50 = 49 \<and>
          SessRun run task iters [SetTmpFisher, Train, RegLoss]
            \<in> set (fst (train_task_sequence env cfg datasets ca task_labels))"
  then have "SessRun run task iters ops \<in> set (fisher_schedule run task iters)"
    using assms(3) by (auto simp: fisher_schedule_def)
  with ewc_event_of_step[OF assms(1,2)] a
  show "SessRun run task iters ops
      \<in> set (fst (train_task_sequence env cfg datasets ca task_labels))" by blast
qed

section \<open>Termination on a NaN loss: auxiliary facts\<close>

lemma stops_at_quiet:
  assumes "\<forall>ev\<in>set (fst m). \<forall>r t i ops. ev \<noteq> SessRun r t i ops"
  shows "stops_at run task iters m"
  using assms by (auto simp: stops_at_def)

lemma stops_at_and_then:
  assumes "stops_at run task iters m" "\<And>a. stops_at run task iters (f a)"
  shows "stops_at run task iters (and_then m f)"
proof (cases "snd m")
  case (Inl e)
  then have "fst (and_then m f) = fst m" "snd (and_then m f) = Inl e"
    by (simp_all add: fst_and_then snd_and_then)
  then show ?thesis using assms(1) Inl by (simp add: stops_at_def)
next
  case (Inr a)
  then have no: "\<not> (\<exists>ops. SessRun run task iters ops \<in> set (fst m) \<and> RegLoss \<in> set ops)"
    using assms(1) by (auto simp: stops_at_def)
  have f: "fst (and_then m f) = fst m @ fst (f a)" and s: "snd (and_then m f) = snd (f a)"
    using Inr by (simp_all add: fst_and_then snd_and_then)
  show ?thesis
    unfolding stops_at_def f s
  proof
    assume "\<exists>ops. SessRun run task iters ops \<in> set (fst m @ fst (f a)) \<and> RegLoss \<in> set ops"
    with no have "\<exists>ops. SessRun run task iters ops \<in> set (fst (f a)) \<and> RegLoss \<in> set ops"
      by auto
    with assms(2)[of a] have "snd (f a) = Inl (SystemExit 0)" "fst (f a) \<noteq> []"
      "\<exists>ops. last (fst (f a)) = SessRun run task iters ops"
      by (auto simp: stops_at_def)
    then show "snd (f a) = Inl (SystemExit 0) \<and> fst m @ fst (f a) \<noteq> [] \<and>
       (\<exists>ops. last (fst m @ fst (f a)) = SessRun run task iters ops)"
      by simp
  qed
qed

lemma stops_at_ok: "stops_at run task iters (ok a)"
  by (simp add: stops_at_def)

lemma stops_at_for_each:
  assumes "\<And>k s. k \<in> set ks \<Longrightarrow> stops_at run task iters (body k s)"
  shows "stops_at run task iters (for_each ks body s)"
  using assms
proof (induction ks arbitrary: s)
  case Nil
  then show ?case by (simp add: stops_at_ok)
next
  case (Cons k ks)
  show ?case
    unfolding for_each.simps
    by (rule stops_at_and_then) (simp_all add: Cons)
qed

lemma stops_at_for_break:
  assumes "\<And>k s. k \<in> set ks \<Longrightarrow> stops_at run task iters (body k s)"
  shows "stops_at run task iters (for_break ks body s)"
  using assms
proof (induction ks arbitrary: s)
  case Nil
  then show ?case by (simp add: stops_at_ok)
next
  case (Cons k ks)
  show ?case
    unfolding for_break.simps
    by (rule stops_at_and_then) (simp_all add: Cons stops_at_ok)
qed

lemma and_then_Inl: "and_then (tr, Inl e) f = (tr, Inl e)"
  by (simp add: and_then_def)

lemma and_then_Inr: "and_then (tr, Inr a) f = apfst ((@) tr) (f a)"
  by (simp add: and_then_def apfst_def map_prod_def split: prod.splits)

lemmas action_eval = and_then_Inl and_then_Inr ok_def log_def of_result_def sess_run_def

lemma reference_gradients_events:
  "ev \<in> set (fst (reference_gradients run task iters mem ps)) \<Longrightarrow>
     ev = SessRun run task iters [TaskGrads, StoreTaskGradients]"
proof (induction ps)
  case Nil
  then show ?case by simp
next
  case (Cons p ps)
  then show ?case
    by (cases "py_index ''task_based_memory'' mem p")
       (auto simp: fst_and_then split: sum.splits)
qed

lemma tagged_van: "tagged run task iters (sess_run run task iters ops)"
  by (simp add: tagged_def)

lemma tagged_ewc:
  "tagged run task iters
     (and_then (if task = 0 \<and> iters = 0
                    then sess_run run task iters [SetInitialRunningFisher] else ok ()) (\<lambda>_.
          and_then (of_result (py_mod (int iters + 1) fua)) (\<lambda>m.
          and_then (if m = 0
                    then and_then (sess_run run task iters [SetRunningFisher]) (\<lambda>_.
                         sess_run run task iters [ResetTmpFisher])
                    else ok ()) (\<lambda>_.
          sess_run run task iters [SetTmpFisher, Train, RegLoss]))))"
  by (simp add: tagged_def action_eval py_mod_def)

lemma tagged_rwalk:
  "tagged run task iters
     (and_then (if task = 0 \<and> iters = 0
                    then and_then (sess_run run task iters [SetInitialRunningFisher]) (\<lambda>_.
                         sess_run run task iters [WeightsDeltaOldGrouped])
                    else ok ()) (\<lambda>_.
          and_then (of_result (py_mod (int iters + 1) fua)) (\<lambda>m.
          and_then (if m = 0
                    then and_then (sess_run run task iters [UpdateBigOmegaRiemann]) (\<lambda>_.
                         and_then (sess_run run task iters [SetRunningFisher]) (\<lambda>_.
                         and_then (sess_run run task iters [WeightsDeltaOldGrouped]) (\<lambda>_.
                         sess_run run task iters [ResetSmallOmega])))
                    else ok ()) (\<lambda>_.
          sess_run run task iters
            [SetTmpFisher, WeightsOldOpsGrouped, Train, UpdateSmallOmega, RegLoss]))))"
  by (simp add: tagged_def action_eval py_mod_def)

lemma tagged_gem:
  "tagged run task iters
     (and_then (reference_gradients run task iters mem ps) (\<lambda>_.
             and_then (sess_run run task iters [TaskGrads, StoreTaskGradients, RegLoss]) (\<lambda>_.
             and_then (sess_run run task iters [GemGradientUpdate, StoreGrads]) (\<lambda>_.
             sess_run run task iters [TrainSubseqTasks]))))"
proof (cases "snd (reference_gradients run task iters mem ps)")
  case (Inl e)
  then show ?thesis
    by (auto simp: tagged_def fst_and_then dest: reference_gradients_events)
next
  case (Inr u)
  then show ?thesis
    by (auto simp: tagged_def fst_and_then snd_and_then dest: reference_gradients_events)
qed

lemma tagged_train_ops: "tagged run task iters (train_ops env run task iters mem)"
  unfolding train_ops_def
  by (cases "imp_method env")
     (simp_all add: tagged_van tagged_ewc tagged_rwalk tagged_gem)

lemma train_ops_tagged:
  "ev \<in> set (fst (train_ops env run task iters mem)) \<Longrightarrow> \<exists>ops. ev = SessRun run task iters ops"
  using tagged_train_ops[of run task iters env mem] by (simp add: tagged_def)

lemma train_ops_loss_ok:
  assumes "SessRun r t i ops \<in> set (fst (train_ops env run task iters mem))" "RegLoss \<in> set ops"
  shows "snd (train_ops env run task iters mem) = Inr ()"
  using tagged_train_ops[of run task iters env mem] assms unfolding tagged_def by blast

lemma stops_at_step:
  fixes st1 :: "'a run_state"
  assumes "reg_loss env r t i = NaN"
  shows "stops_at r t i (and_then (train_ops env run task iters mem) (\<lambda>_.
       (let loss = reg_loss env run task iters
        in if loss = NaN then of_result (Inl (SystemExit 0))
           else if check_due iters then ok (early_stopping loss st1)
           else ok (False, st1))))"
  unfolding stops_at_def
proof
  let ?m = "and_then (train_ops env run task iters mem) (\<lambda>_.
       (let loss = reg_loss env run task iters
        in if loss = NaN then of_result (Inl (SystemExit 0))
           else if check_due iters then ok (early_stopping loss st1)
           else ok (False, st1)))"
  let ?o = "train_ops env run task iters mem"
  have f: "fst ?m = fst ?o"
    by (cases "snd ?o") (simp_all add: fst_and_then Let_def)
  assume "\<exists>ops. SessRun r t i ops \<in> set (fst ?m) \<and> RegLoss \<in> set ops"
  then obtain ops where o: "SessRun r t i ops \<in> set (fst ?o)" "RegLoss \<in> set ops"
    unfolding f by blast
  from train_ops_tagged[OF o(1)] have eq: "r = run" "t = task" "i = iters" by auto
  from train_ops_loss_ok[OF o] have ok: "snd ?o = Inr ()" .
  have ne: "fst ?o \<noteq> []" using o(1) by auto
  then have "last (fst ?o) \<in> set (fst ?o)" by simp
  from train_ops_tagged[OF this] have l: "\<exists>ops. last (fst ?o) = SessRun r t i ops"
    unfolding eq .
  have "snd ?m = Inl (SystemExit 0)"
    using ok assms unfolding eq by (simp add: snd_and_then Let_def)
  with ne l show "snd ?m = Inl (SystemExit 0) \<and> fst ?m \<noteq> [] \<and>
      (\<exists>ops. last (fst ?m) = SessRun r t i ops)"
    unfolding f by simp
qed

lemma stops_at_train_iteration:
  assumes "reg_loss env r t i = NaN"
  shows "stops_at r t i (train_iteration env cfg datasets ca task_labels run task loc iters st)"
proof -
  define A where "A = (if train_single_epoch cfg \<and> \<not> cross_validate_mode cfg \<and> snapshot_due iters
        then and_then (evaluate env cfg datasets ca task_labels run task (Some iters)
                         (cross_validate_mode cfg)) (\<lambda>fbatch.
             ok (st\<lparr>ftask := ftask st @ [fbatch]\<rparr>))
        else ok st)"
  have qa: "\<forall>ev\<in>set (fst A). \<forall>r t i ops. ev \<noteq> SessRun r t i ops"
    by (cases "snd (evaluate env cfg datasets ca task_labels run task (Some iters)
                         (cross_validate_mode cfg))")
       (simp_all add: A_def fst_and_then)
  show ?thesis
    unfolding train_iteration_def A_def[symmetric]
    by (intro stops_at_and_then stops_at_quiet[OF qa] stops_at_step[OF assms])
       (simp add: stops_at_def)
qed

lemma no_sess_run_closed:
  "append_closed (\<lambda>tr. \<forall>ev\<in>set tr. \<forall>r t i ops. ev \<noteq> SessRun r t i ops)"
  by (rule all_events_closed)

lemma stops_at_train_task:
  assumes "reg_loss env r t i = NaN"
  shows "stops_at r t i (train_task env cfg datasets ca task_labels run task st)"
  unfolding train_task_def train_loop_def
  apply (rule stops_at_and_then)
   apply (rule stops_at_quiet)
   apply (rule trace_prepare_task[OF no_sess_run_closed], simp)
  apply (rule stops_at_and_then)
   apply (rule stops_at_for_break)
   apply (rule stops_at_train_iteration[OF assms])
  apply (rule stops_at_and_then)
   apply (rule stops_at_quiet)
   apply (rule trace_task_boundary[OF no_sess_run_closed], simp)
  apply (rule stops_at_quiet)
  apply (rule trace_finish_task[OF no_sess_run_closed], simp_all)
  done

lemma stops_at_train_task_sequence:
  assumes "reg_loss env r t i = NaN"
  shows "stops_at r t i (train_task_sequence env cfg datasets ca task_labels)"
  unfolding train_task_sequence_def train_run_def tasks_before_def
  apply (rule stops_at_for_each)
  apply (rule stops_at_and_then)
   apply (rule stops_at_and_then, simp add: stops_at_def)
   apply (rule stops_at_and_then, simp add: stops_at_def)
   apply (rule stops_at_and_then)
    apply (rule stops_at_for_each)
    apply (rule stops_at_train_task[OF assms])
   apply (rule stops_at_ok)
  apply (rule stops_at_ok)
  done

section \<open>Evaluating concrete runs\<close>

lemmas run_eval = train_task_sequence_def train_run_def tasks_before_def train_task_def
     prepare_task_def train_loop_def train_iteration_def task_boundary_def finish_task_def
     evaluate_def store_samples_def append_samples_def train_ops_def train_feed_def batch_offset_def
     action_eval py_index_def py_mod_def py_floordiv_def
     np_take_def run_state_init_def check_due_def snapshot_due_def upt_conv_Cons
     test_task_sequence_def test_task_def test_locals_init_def
     samples_at_a_time_def Let_def py_slice_def slice_index_def
     np_sum_def correct_predictions_def accuracy_def attribute_mask_def zeros_like_def
     set_rows_def example_env_def example_config_def example_dataset_def sample_first_def

section \<open>The episodic memory and the replay buffer: auxiliary facts\<close>

lemma for_break_stores:
  assumes "\<And>k s r. snd (body k s) = Inr r \<Longrightarrow> p (snd r) = p s"
    and "snd (for_break ks body s) = Inr s'"
  shows "p s' = p s"
  using assms(2)
proof (induction ks arbitrary: s)
  case Nil
  then show ?case by simp
next
  case (Cons k ks)
  then obtain r where r: "snd (body k s) = Inr r"
    and rest: "snd (if fst r then ok (snd r) else for_break ks body (snd r)) = Inr s'"
    by (auto simp: snd_and_then split: sum.splits)
  from assms(1)[OF r] have "p (snd r) = p s" .
  with rest Cons.IH[of "snd r"] show ?case by (cases "fst r") auto
qed

lemma early_stopping_stores: "stores (snd (early_stopping loss st)) = stores st"
  by (simp add: early_stopping_def stores_def Let_def)

lemma train_iteration_stores:
  assumes "snd (train_iteration env cfg datasets ca task_labels run task loc iters st) = Inr r"
  shows "stores (snd r) = stores st"
  using assms unfolding train_iteration_def Let_def
  by (auto simp: snd_and_then stores_def early_stopping_def Let_def split: sum.splits if_splits)

lemma train_loop_stores:
  assumes "snd (train_loop env cfg datasets ca task_labels run task loc st) = Inr st'"
  shows "stores st' = stores st"
  using assms unfolding train_loop_def
  by (rule for_break_stores[rotated]) (rule train_iteration_stores)

lemma prepare_task_stores:
  assumes "snd (prepare_task env cfg datasets ca task_labels run task st) = Inr p"
  shows "stores (snd p) = stores st"
  using assms unfolding prepare_task_def Let_def
  by (auto simp: snd_and_then stores_def split: sum.splits if_splits)

lemma finish_task_stores:
  assumes "snd (finish_task env cfg datasets ca task_labels run task st) = Inr st'"
  shows "stores st' = stores st"
  using assms unfolding finish_task_def Let_def
  by (auto simp: snd_and_then stores_def split: sum.splits if_splits)

lemma task_boundary_stores:
  assumes "snd (task_boundary env cfg datasets task_labels run task st) = Inr st'"
  shows "stores st' =
     (if Suc task < length datasets
      then ((if imp_method env = GEM
             then task_based_memory st @ [episodic_sample env cfg datasets task_labels run task]
             else task_based_memory st),
            (if do_sampling cfg
             then append_samples (last_task st) (replay_sample env cfg datasets task_labels run task)
             else last_task st))
      else stores st)"
  using assms unfolding task_boundary_def
  by (auto simp: snd_and_then stores_def store_samples_def Let_def py_index_def
        episodic_sample_def replay_sample_def split: sum.splits if_splits)

lemma train_task_stores:
  assumes "snd (train_task env cfg datasets ca task_labels run task st) = Inr st'"
  shows "stores st' =
     (if Suc task < length datasets
      then ((if imp_method env = GEM
             then task_based_memory st @ [episodic_sample env cfg datasets task_labels run task]
             else task_based_memory st),
            (if do_sampling cfg
             then append_samples (last_task st) (replay_sample env cfg datasets task_labels run task)
             else last_task st))
      else stores st)"
proof -
  from assms obtain p st2 st3 where
    p: "snd (prepare_task env cfg datasets ca task_labels run task st) = Inr p"
    and l: "snd (train_loop env cfg datasets ca task_labels run task (fst p) (snd p)) = Inr st2"
    and b: "snd (task_boundary env cfg datasets task_labels run task st2) = Inr st3"
    and f: "snd (finish_task env cfg datasets ca task_labels run task st3) = Inr st'"
    unfolding train_task_def by (auto simp: snd_and_then split: sum.splits)
  have "stores st2 = stores st"
    using prepare_task_stores[OF p] train_loop_stores[OF l] by simp
  then have m: "task_based_memory st2 = task_based_memory st" "last_task st2 = last_task st"
    by (simp_all add: stores_def)
  show ?thesis
    using finish_task_stores[OF f] task_boundary_stores[OF b] m
    by (simp add: stores_def)
qed

lemma snd_for_each_append:
  "snd (for_each (xs @ ys) body s) =
     (case snd (for_each xs body s) of Inl e \<Rightarrow> Inl e | Inr s' \<Rightarrow> snd (for_each ys body s'))"
  by (induction xs arbitrary: s) (auto simp: snd_and_then split: sum.splits)

lemma tasks_before_Suc:
  assumes "snd (tasks_before env cfg datasets ca task_labels run (Suc t)) = Inr st'"
  shows "\<exists>st. snd (tasks_before env cfg datasets ca task_labels run t) = Inr st \<and>
              snd (train_task env cfg datasets ca task_labels run t st) = Inr st'"
  using assms unfolding tasks_before_def
  by (auto simp: snd_for_each_append snd_and_then split: sum.splits)

lemma tasks_before_stores:
  assumes "t \<le> length datasets"
    and "snd (tasks_before env cfg datasets ca task_labels run t) = Inr st"
  shows "task_based_memory st =
           (if imp_method env = GEM
            then map (episodic_sample env cfg datasets task_labels run)
                   [0..<min t (length datasets - 1)]
            else []) \<and>
         last_task st =
           (if do_sampling cfg
            then foldl append_samples None
                   (map (replay_sample env cfg datasets task_labels run)
                      [0..<min t (length datasets - 1)])
            else None)"
  using assms
proof (induction t arbitrary: st)
  case 0
  then have "st = run_state_init" by (simp add: tasks_before_def)
  then show ?case by (simp add: run_state_init_def)
next
  case (Suc t)
  from tasks_before_Suc[OF Suc.prems(2)] obtain st0 where
    b: "snd (tasks_before env cfg datasets ca task_labels run t) = Inr st0"
    and s: "snd (train_task env cfg datasets ca task_labels run t st0) = Inr st" by blast
  have le: "t \<le> length datasets" using Suc.prems(1) by simp
  note ih = Suc.IH[OF le b]
  show ?case
  proof (cases "Suc t < length datasets")
    case True
    then have m: "min t (length datasets - 1) = t" "min (Suc t) (length datasets - 1) = Suc t"
      by simp_all
    show ?thesis
      using ih train_task_stores[OF s] True unfolding m by (simp add: stores_def)
  next
    case False
    with Suc.prems(1) have e: "Suc t = length datasets" by simp
    then have m: "min t (length datasets - 1) = t" "min (Suc t) (length datasets - 1) = t"
      by auto
    show ?thesis
      using ih train_task_stores[OF s] False unfolding m by (simp add: stores_def)
  qed
qed

lemma reference_gradients_ok:
  assumes "\<forall>p\<in>set ps. p < length mem"
  shows "reference_gradients run task iters mem ps =
           (replicate (length ps) (SessRun run task iters [TaskGrads, StoreTaskGradients]), Inr ())"
  using assms
  by (induction ps) (simp_all add: action_eval py_index_def)

lemma gem_train_ops_ok:
  assumes "imp_method env = GEM" "task \<le> length mem"
  shows "snd (train_ops env run task iters mem) = Inr ()"
proof -
  have "\<forall>p\<in>set [0..<task]. p < length mem" using assms(2) by simp
  from reference_gradients_ok[OF this] show ?thesis
    using assms(1) by (simp add: train_ops_def action_eval)
qed

lemma buffer_images_append:
  "buffer_images (append_samples b x) = buffer_images b @ buffer_images x"
  by (simp add: buffer_images_def append_samples_def split: option.splits)

lemma buffer_images_foldl:
  "buffer_images (foldl append_samples b xs) = buffer_images b @ concat (map buffer_images xs)"
  by (induction xs arbitrary: b) (simp_all add: buffer_images_append)

lemma buffer_size_images: "buffer_size b = length (buffer_images b)"
  by (simp add: buffer_size_def buffer_images_def split: option.splits)

lemma buffer_size_foldl:
  "buffer_size (foldl append_samples None xs) = sum_list (map buffer_size xs)"
proof -
  have "buffer_images (foldl append_samples None xs) = concat (map buffer_images xs)"
    by (simp add: buffer_images_foldl) (simp add: buffer_images_def)
  then have "buffer_size (foldl append_samples None xs) =
      sum_list (map length (map buffer_images xs))"
    by (simp add: buffer_size_images length_concat)
  also have "map length (map buffer_images xs) = map buffer_size xs"
    by (simp add: buffer_size_images)
  finally show ?thesis .
qed

lemma sum_list_const: "(\<forall>x\<in>set xs. f x = c) \<Longrightarrow> sum_list (map f xs) = length xs * c"
  by (induction xs) simp_all

section \<open>Early stopping: auxiliary facts\<close>

lemma loss_world_at_0 [simp]: "loss_world_at L lw 0 = lw"
  by (simp add: loss_world_at_def)

lemma loss_world_at_Suc:
  "loss_world_at L lw (Suc c) =
     (if check_due c then record_loss (loss_world_at L lw c) (L c) else loss_world_at L lw c)"
  by (simp add: loss_world_at_def)

lemma train_ops_ok:
  assumes "imp_method env = EWC \<or> imp_method env = RWALK \<longrightarrow> fisher_update_after env \<noteq> 0"
    and "imp_method env = GEM \<longrightarrow> task \<le> length mem"
  shows "snd (train_ops env run task iters mem) = Inr ()"
proof (cases "imp_method env")
  case GEM
  then show ?thesis using assms(2) gem_train_ops_ok by blast
next
  case EWC
  then show ?thesis using assms(1) by (simp add: train_ops_def action_eval py_mod_def)
next
  case RWALK
  then show ?thesis using assms(1) by (simp add: train_ops_def action_eval py_mod_def)
qed (simp_all add: train_ops_def action_eval)

text \<open>What an iteration that does not fail does to the early-stopping state.\<close>

lemma train_iteration_ok:
  assumes loss: "reg_loss env run task k \<noteq> NaN"
    and feed: "int (num_train_examples loc) \<noteq> batch_size cfg"
    and ops: "snd (train_ops env run task k (task_based_memory s)) = Inr ()"
    and snap: "train_single_epoch cfg \<and> \<not> cross_validate_mode cfg \<longrightarrow>
       (\<exists>a. test_task_sequence (scorer env run task (Some k)) datasets ca
              (num_classes_per_task cfg) task_labels (cross_validate_mode cfg)
              (eval_single_head cfg) = Inr a)"
  shows "\<exists>r. snd (train_iteration env cfg datasets ca task_labels run task loc k s) = Inr r \<and>
           task_based_memory (snd r) = task_based_memory s \<and>
           (if check_due k
            then loss_world (snd r) = record_loss (loss_world s) (reg_loss env run task k) \<and>
                 i_am_increasing (snd r) =
                   (if pf_less (reg_loss env run task k) (np_max (loss_world s)) then 0
                    else i_am_increasing s + 1) \<and>
                 fst r = (my_threshold < i_am_increasing (snd r))
            else loss_world (snd r) = loss_world s \<and>
                 i_am_increasing (snd r) = i_am_increasing s \<and> \<not> fst r)"
proof -
  define s1 where "s1 = (if train_single_epoch cfg \<and> \<not> cross_validate_mode cfg \<and> snapshot_due k
      then s\<lparr>ftask := ftask s @ [projr (test_task_sequence (scorer env run task (Some k)) datasets ca
              (num_classes_per_task cfg) task_labels (cross_validate_mode cfg)
              (eval_single_head cfg))]\<rparr> else s)"
  have a: "snd (if train_single_epoch cfg \<and> \<not> cross_validate_mode cfg \<and> snapshot_due k
        then and_then (evaluate env cfg datasets ca task_labels run task (Some k)
                         (cross_validate_mode cfg)) (\<lambda>fbatch.
             ok (s\<lparr>ftask := ftask s @ [fbatch]\<rparr>))
        else ok s) = Inr s1"
    using snap by (auto simp: s1_def snd_and_then evaluate_def)
  have m: "task_based_memory s1 = task_based_memory s" "loss_world s1 = loss_world s"
    "i_am_increasing s1 = i_am_increasing s"
    by (simp_all add: s1_def)
  have f: "\<exists>fd. train_feed loc (batch_size cfg) k = Inr fd"
    using feed by (simp add: train_feed_def batch_offset_def py_mod_def)
  have r: "snd (train_iteration env cfg datasets ca task_labels run task loc k s) =
      Inr (if check_due k then early_stopping (reg_loss env run task k) s1 else (False, s1))"
    unfolding train_iteration_def
    using a f ops loss by (auto simp: snd_and_then m Let_def)
  show ?thesis
    unfolding r
    by (simp add: early_stopping_def record_loss_def Let_def m)
qed

lemma train_iteration_events:
  assumes "ev \<in> set (fst (train_iteration env cfg datasets ca task_labels run task loc k s))"
  shows "(\<exists>cv. ev = Evaluate run task (Some k) cv) \<or> (\<exists>ops. ev = SessRun run task k ops)"
proof -
  have "\<forall>ev\<in>set (fst (train_iteration env cfg datasets ca task_labels run task loc k s)).
      (\<exists>cv. ev = Evaluate run task (Some k) cv) \<or> (\<exists>ops. ev = SessRun run task k ops)"
  proof (rule trace_and_then[OF all_events_closed] | unfold train_iteration_def)+
  qed (auto simp: fst_and_then Let_def split: sum.splits dest: train_ops_tagged)
  with assms show ?thesis by blast
qed

lemma check_due_400: "check_due c \<Longrightarrow> check_due (c + 400)"
proof -
  assume c: "check_due c"
  have "(c + 4 * 100) mod 100 = c mod 100" by (rule mod_mult_self1)
  then have "(c + 400) mod 100 = c mod 100" by simp
  with c show ?thesis by (simp add: check_due_def)
qed

lemma check_grid:
  assumes "check_due c" "c \<le> a" "a \<le> c + 400" "check_due a"
  shows "\<exists>j<5. a = c + 100 * j"
proof -
  from assms have "100 dvd c" "100 dvd a" by (simp_all add: check_due_def mod_eq_0_iff_dvd)
  then have "100 dvd a - c" by (simp add: dvd_diff_nat)
  then obtain j where j: "a - c = 100 * j" by (auto elim: dvdE)
  with assms(2,3) have "a = c + 100 * j" "j < 5" by linarith+
  then show ?thesis by blast
qed

lemma checks_passed_Suc:
  assumes "check_due c" "c < a" "\<not> check_due a"
  shows "(Suc a - c + 99) div 100 = (a - c + 99) div 100"
proof -
  define n where "n = a - c"
  have a: "a = c + n" and npos: "0 < n" using assms(2) by (simp_all add: n_def)
  have c0: "c mod 100 = 0" and a0: "a mod 100 \<noteq> 0"
    using assms by (auto simp: check_due_def)
  have "a mod 100 = (c mod 100 + n mod 100) mod 100" unfolding a by (rule mod_add_eq[symmetric])
  then have r: "0 < n mod 100" using c0 a0 by simp
  define q where "q = n div 100"
  define m where "m = n mod 100"
  have d: "n = 100 * q + m" by (simp add: q_def m_def)
  have lt: "m < 100" and mpos: "0 < m" using r by (simp_all add: m_def)
  have lo: "100 * Suc q \<le> n + 99" unfolding d using mpos by simp
  have hi: "n + 99 < 100 * Suc (Suc q)" unfolding d using lt by simp
  have "(n + 99) div 100 = Suc q"
    using lo hi by (rule div_nat_eqI)
  then have "(n + 99) div 100 = Suc (n div 100)" by (simp add: q_def)
  moreover have "(n + 100) div 100 = Suc (n div 100)" by simp
  moreover have "Suc a - c + 99 = n + 100" "a - c + 99 = n + 99"
    using assms(2) by (simp_all add: n_def)
  ultimately show ?thesis by simp
qed

lemma early_stop_loop:
  fixes env :: "'x env" and s :: "'x run_state" and run task :: nat
  defines "L \<equiv> reg_loss env run task"
  assumes chk: "check_due c" and cin: "c + 400 < N"
    and nonimp: "\<forall>j<5. \<not> pf_less (L (c + 100 * j)) (np_max (loss_world_at L lw0 c))"
    and loss: "\<forall>k\<le>c + 400. L k \<noteq> NaN"
    and feed: "int (num_train_examples loc) \<noteq> batch_size cfg"
    and ops: "\<forall>k. snd (train_ops env run task k mem0) = Inr ()"
    and snap: "train_single_epoch cfg \<and> \<not> cross_validate_mode cfg \<longrightarrow>
       (\<forall>k. \<exists>a. test_task_sequence (scorer env run task (Some k)) datasets ca
              (num_classes_per_task cfg) task_labels (cross_validate_mode cfg)
              (eval_single_head cfg) = Inr a)"
    and a: "a \<le> c + 400"
    and mem: "task_based_memory s = mem0"
    and before: "a \<le> c \<longrightarrow> loss_world s = loss_world_at L lw0 a"
    and after: "c < a \<longrightarrow> loss_world s = loss_world_at L lw0 c \<and>
                  (a - c + 99) div 100 \<le> i_am_increasing s"
  shows "\<exists>s'. snd (for_break [a..<N]
                 (train_iteration env cfg datasets ca task_labels run task loc) s) = Inr s' \<and>
              my_threshold < i_am_increasing s' \<and>
              (\<forall>ev\<in>set (fst (for_break [a..<N]
                 (train_iteration env cfg datasets ca task_labels run task loc) s)).
                 \<forall>k ops. ev = SessRun run task k ops \<longrightarrow> k \<le> c + 400)"
  using a mem before after
proof (induction "c + 400 - a" arbitrary: a s)
  case 0
  then have ac: "a = c + 400" by simp
  let ?body = "train_iteration env cfg datasets ca task_labels run task loc"
  have u: "[a..<N] = a # [Suc a..<N]" using cin ac by (simp add: upt_conv_Cons)
  have la: "L a \<noteq> NaN" using loss ac by simp
  from train_iteration_ok[OF la[unfolded L_def] feed, of s datasets ca task_labels] ops snap "0.prems"(2)
  obtain r where r: "snd (?body a s) = Inr r"
    and es: "if check_due a
            then loss_world (snd r) = record_loss (loss_world s) (L a) \<and>
                 i_am_increasing (snd r) =
                   (if pf_less (L a) (np_max (loss_world s)) then 0
                    else i_am_increasing s + 1) \<and>
                 fst r = (my_threshold < i_am_increasing (snd r))
            else loss_world (snd r) = loss_world s \<and>
                 i_am_increasing (snd r) = i_am_increasing s \<and> \<not> fst r"
    unfolding L_def by blast
  have ca: "check_due a" using check_due_400[OF chk] ac by simp
  have lw: "loss_world s = loss_world_at L lw0 c" and cnt: "4 \<le> i_am_increasing s"
    using "0.prems"(4) ac by simp_all
  have "\<not> pf_less (L a) (np_max (loss_world s))"
    using nonimp[rule_format, of 4] ac lw by simp
  with es ca cnt have br: "fst r" and th: "my_threshold < i_am_increasing (snd r)"
    by (simp_all add: my_threshold_def)
  have s: "snd (for_break [a..<N] ?body s) = Inr (snd r)"
    unfolding u using r br by (simp add: snd_and_then)
  have f: "fst (for_break [a..<N] ?body s) = fst (?body a s)"
    unfolding u using r br by (simp add: fst_and_then)
  have "\<forall>ev\<in>set (fst (?body a s)). \<forall>k ops. ev = SessRun run task k ops \<longrightarrow> k \<le> c + 400"
  proof (intro ballI allI impI)
    fix ev k ops
    assume m: "ev \<in> set (fst (?body a s))" and e: "ev = SessRun run task k ops"
    from train_iteration_events[OF m] e have "k = a" by auto
    then show "k \<le> c + 400" using ac by simp
  qed
  with s f th show ?case by simp
next
  case (Suc d)
  then have alt: "a < c + 400" by simp
  let ?body = "train_iteration env cfg datasets ca task_labels run task loc"
  have u: "[a..<N] = a # [Suc a..<N]" using cin alt by (simp add: upt_conv_Cons)
  have la: "L a \<noteq> NaN" using loss alt by simp
  from train_iteration_ok[OF la[unfolded L_def] feed, of s datasets ca task_labels] ops snap Suc.prems(2)
  obtain r where r: "snd (?body a s) = Inr r"
    and mr: "task_based_memory (snd r) = task_based_memory s"
    and es: "if check_due a
            then loss_world (snd r) = record_loss (loss_world s) (L a) \<and>
                 i_am_increasing (snd r) =
                   (if pf_less (L a) (np_max (loss_world s)) then 0
                    else i_am_increasing s + 1) \<and>
                 fst r = (my_threshold < i_am_increasing (snd r))
            else loss_world (snd r) = loss_world s \<and>
                 i_am_increasing (snd r) = i_am_increasing s \<and> \<not> fst r"
    unfolding L_def by blast
  have evs: "\<forall>ev\<in>set (fst (?body a s)). \<forall>k ops. ev = SessRun run task k ops \<longrightarrow> k \<le> c + 400"
  proof (intro ballI allI impI)
    fix ev k ops
    assume m: "ev \<in> set (fst (?body a s))" and e: "ev = SessRun run task k ops"
    from train_iteration_events[OF m] e have "k = a" by auto
    then show "k \<le> c + 400" using alt by simp
  qed
  show ?case
  proof (cases "fst r")
    case True
    then have "check_due a" using es by (auto split: if_splits)
    with es True have th: "my_threshold < i_am_increasing (snd r)" by simp
    have s: "snd (for_break [a..<N] ?body s) = Inr (snd r)"
      unfolding u using r True by (simp add: snd_and_then)
    have f: "fst (for_break [a..<N] ?body s) = fst (?body a s)"
      unfolding u using r True by (simp add: fst_and_then)
    from s f th evs show ?thesis by simp
  next
    case False
    have d: "d = c + 400 - Suc a" using Suc.hyps(2) by simp
    have a1: "Suc a \<le> c + 400" using alt by simp
    have m1: "task_based_memory (snd r) = mem0" using mr Suc.prems(2) by simp
    have b1: "Suc a \<le> c \<longrightarrow> loss_world (snd r) = loss_world_at L lw0 (Suc a)"
    proof
      assume "Suc a \<le> c"
      then have "loss_world s = loss_world_at L lw0 a" using Suc.prems(3) by simp
      with es show "loss_world (snd r) = loss_world_at L lw0 (Suc a)"
        by (simp add: loss_world_at_Suc split: if_splits)
    qed
    have c1: "c < Suc a \<longrightarrow> loss_world (snd r) = loss_world_at L lw0 c \<and>
                  (Suc a - c + 99) div 100 \<le> i_am_increasing (snd r)"
    proof
      assume "c < Suc a"
      then have ca: "c \<le> a" by simp
      have lw: "loss_world s = loss_world_at L lw0 c"
        using Suc.prems(3,4) ca by (cases "a = c") auto
      have cnt: "(a - c + 99) div 100 \<le> i_am_increasing s"
        using Suc.prems(4) ca by (cases "a = c") auto
      show "loss_world (snd r) = loss_world_at L lw0 c \<and>
                  (Suc a - c + 99) div 100 \<le> i_am_increasing (snd r)"
      proof (cases "check_due a")
        case True
        from check_grid[OF chk ca _ True] alt obtain j where j: "j < 5" "a = c + 100 * j"
          by auto
        have ni: "\<not> pf_less (L a) (np_max (loss_world s))"
          using nonimp j lw by simp
        have "(Suc a - c + 99) div 100 = Suc ((a - c + 99) div 100)"
          unfolding j(2) by simp
        with es True ni cnt lw show ?thesis
          by (simp add: record_loss_def)
      next
        case False
        then have "c < a" using chk ca by (cases "a = c") auto
        from checks_passed_Suc[OF chk this False] es False lw cnt show ?thesis by simp
      qed
    qed
    from Suc.hyps(1)[OF d a1 m1 b1 c1] obtain s' where
      s': "snd (for_break [Suc a..<N] ?body (snd r)) = Inr s'"
      "my_threshold < i_am_increasing s'"
      "\<forall>ev\<in>set (fst (for_break [Suc a..<N] ?body (snd r))).
          \<forall>k ops. ev = SessRun run task k ops \<longrightarrow> k \<le> c + 400"
      by blast
    have s: "snd (for_break [a..<N] ?body s) = Inr s'"
      unfolding u using r False s'(1) by (simp add: snd_and_then)
    have f: "fst (for_break [a..<N] ?body s) =
        fst (?body a s) @ fst (for_break [Suc a..<N] ?body (snd r))"
      unfolding u using r False by (simp add: fst_and_then)
    from s f s'(2,3) evs show ?thesis by auto
  qed
qed

lemma prepare_task_ok:
  assumes "snd (prepare_task env cfg datasets ca task_labels run task st0) = Inr p"
  shows "task < length datasets \<and> task < length task_labels \<and>
         loss_world (snd p) = loss_world st0"
  using assms unfolding prepare_task_def Let_def
  by (auto simp: snd_and_then py_index_def split: sum.splits if_splits)

lemma task_boundary_trace:
  assumes "task < length datasets" "task < length task_labels"
  shows "fst (task_boundary env cfg datasets task_labels run task st) =
           (if Suc task < length datasets then [TaskUpdates run task] else []) \<and>
         (\<exists>st'. snd (task_boundary env cfg datasets task_labels run task st) = Inr st')"
  using assms by (auto simp: task_boundary_def action_eval py_index_def)

lemma finish_task_evaluates:
  "\<exists>cv. Evaluate run task None cv
      \<in> set (fst (finish_task env cfg datasets ca task_labels run task st))"
  by (auto simp: finish_task_def fst_and_then)

lemma no_sess_run_prepare:
  "SessRun r t i ops \<notin> set (fst (prepare_task env cfg datasets ca task_labels run task st))"
  using trace_prepare_task[OF no_sess_run_closed, of run task env cfg datasets ca task_labels st]
  by auto

lemma no_sess_run_finish:
  "SessRun r t i ops \<notin> set (fst (finish_task env cfg datasets ca task_labels run task st))"
  using trace_finish_task[OF no_sess_run_closed, of run task env cfg datasets ca task_labels st]
  by auto

lemma pf_less_PInf: "pf_less PInf x = False"
  by (cases x) simp_all


section \<open>The evaluations that the script records: auxiliary facts\<close>

lemma snd_evaluate:
  "snd (evaluate env cfg datasets ca task_labels run task point cv) =
     test_task_sequence (scorer env run task point) datasets ca (num_classes_per_task cfg)
       task_labels cv (eval_single_head cfg)"
  by (simp add: evaluate_def snd_and_then)

lemma for_break_invariant:
  assumes "\<And>k s r. I s \<Longrightarrow> snd (body k s) = Inr r \<Longrightarrow> I (snd r)"
    and "I s"
    and "snd (for_break ks body s) = Inr s'"
  shows "I s'"
  using assms(2,3)
proof (induction ks arbitrary: s)
  case Nil
  then show ?case by simp
next
  case (Cons k ks)
  then obtain r where r: "snd (body k s) = Inr r"
    and rest: "snd (if fst r then ok (snd r) else for_break ks body (snd r)) = Inr s'"
    by (auto simp: snd_and_then split: sum.splits)
  from assms(1)[OF Cons.prems(1) r] have "I (snd r)" .
  with rest Cons.IH[of "snd r"] show ?case by (cases "fst r") auto
qed

lemma train_iteration_snapshots:
  assumes "snd (train_iteration env cfg datasets ca task_labels run task loc iters st) = Inr r"
    and "\<forall>a\<in>set (ftask st). \<exists>point.
           test_task_sequence (scorer env run task point) datasets ca
             (num_classes_per_task cfg) task_labels (cross_validate_mode cfg)
             (eval_single_head cfg) = Inr a"
  shows "\<forall>a\<in>set (ftask (snd r)). \<exists>point.
           test_task_sequence (scorer env run task point) datasets ca
             (num_classes_per_task cfg) task_labels (cross_validate_mode cfg)
             (eval_single_head cfg) = Inr a"
  using assms unfolding train_iteration_def Let_def
  by (auto simp: snd_and_then snd_evaluate early_stopping_def Let_def
        split: sum.splits if_splits)

lemma train_iteration_evals:
  assumes "snd (train_iteration env cfg datasets ca task_labels run task loc iters st) = Inr r"
  shows "evals (snd r) = evals st"
  using assms unfolding train_iteration_def Let_def
  by (auto simp: snd_and_then early_stopping_def Let_def split: sum.splits if_splits)

lemma train_loop_snapshots:
  assumes "snd (train_loop env cfg datasets ca task_labels run task loc st) = Inr st'"
    and "\<forall>a\<in>set (ftask st). \<exists>point.
           test_task_sequence (scorer env run task point) datasets ca
             (num_classes_per_task cfg) task_labels (cross_validate_mode cfg)
             (eval_single_head cfg) = Inr a"
  shows "\<forall>a\<in>set (ftask st'). \<exists>point.
           test_task_sequence (scorer env run task point) datasets ca
             (num_classes_per_task cfg) task_labels (cross_validate_mode cfg)
             (eval_single_head cfg) = Inr a"
  using assms(2,1) unfolding train_loop_def
  by (rule for_break_invariant[rotated]) (rule train_iteration_snapshots)

lemma train_loop_evals:
  assumes "snd (train_loop env cfg datasets ca task_labels run task loc st) = Inr st'"
  shows "evals st' = evals st"
  using assms unfolding train_loop_def
  by (rule for_break_stores[rotated]) (rule train_iteration_evals)

lemma prepare_task_evals:
  assumes "snd (prepare_task env cfg datasets ca task_labels run task st) = Inr p"
  shows "evals (snd p) = evals st \<and> ftask (snd p) = []"
  using assms unfolding prepare_task_def Let_def
  by (auto simp: snd_and_then split: sum.splits if_splits)

lemma task_boundary_evals:
  assumes "snd (task_boundary env cfg datasets task_labels run task st) = Inr st'"
  shows "evals st' = evals st \<and> ftask st' = ftask st"
  using assms unfolding task_boundary_def
  by (auto simp: snd_and_then store_samples_def Let_def split: sum.splits if_splits)

lemma finish_task_evals:
  assumes "snd (finish_task env cfg datasets ca task_labels run task st) = Inr st'"
    and "\<forall>a\<in>set (ftask st). \<exists>point.
           test_task_sequence (scorer env run task point) datasets ca
             (num_classes_per_task cfg) task_labels (cross_validate_mode cfg)
             (eval_single_head cfg) = Inr a"
  shows "\<exists>e. evals st' = evals st @ [e] \<and>
             evaluated_on_all env cfg datasets ca task_labels run task e"
  using assms unfolding finish_task_def evaluated_on_all_def
  by (auto simp: snd_and_then snd_evaluate split: sum.splits if_splits)

lemma train_task_evals:
  assumes "snd (train_task env cfg datasets ca task_labels run task st) = Inr st'"
  shows "\<exists>e. evals st' = evals st @ [e] \<and>
             evaluated_on_all env cfg datasets ca task_labels run task e"
proof -
  from assms obtain p st2 st3 where
    p: "snd (prepare_task env cfg datasets ca task_labels run task st) = Inr p"
    and l: "snd (train_loop env cfg datasets ca task_labels run task (fst p) (snd p)) = Inr st2"
    and b: "snd (task_boundary env cfg datasets task_labels run task st2) = Inr st3"
    and f: "snd (finish_task env cfg datasets ca task_labels run task st3) = Inr st'"
    unfolding train_task_def by (auto simp: snd_and_then split: sum.splits)
  have e: "evals st3 = evals st"
    using prepare_task_evals[OF p] train_loop_evals[OF l] task_boundary_evals[OF b] by simp
  have "\<forall>a\<in>set (ftask (snd p)). \<exists>point.
           test_task_sequence (scorer env run task point) datasets ca
             (num_classes_per_task cfg) task_labels (cross_validate_mode cfg)
             (eval_single_head cfg) = Inr a"
    using prepare_task_evals[OF p] by simp
  from train_loop_snapshots[OF l this] task_boundary_evals[OF b]
  have "\<forall>a\<in>set (ftask st3). \<exists>point.
           test_task_sequence (scorer env run task point) datasets ca
             (num_classes_per_task cfg) task_labels (cross_validate_mode cfg)
             (eval_single_head cfg) = Inr a"
    by simp
  from finish_task_evals[OF f this] e show ?thesis by simp
qed

lemma tasks_before_evals:
  assumes "snd (tasks_before env cfg datasets ca task_labels run t) = Inr st"
  shows "length (evals st) = t \<and>
         (\<forall>k<t. evaluated_on_all env cfg datasets ca task_labels run k (evals st ! k))"
  using assms
proof (induction t arbitrary: st)
  case 0
  then have "st = run_state_init" by (simp add: tasks_before_def)
  then show ?case by (simp add: run_state_init_def)
next
  case (Suc t)
  from tasks_before_Suc[OF Suc.prems] obtain st0 where
    b: "snd (tasks_before env cfg datasets ca task_labels run t) = Inr st0"
    and s: "snd (train_task env cfg datasets ca task_labels run t st0) = Inr st"
    by blast
  from train_task_evals[OF s] obtain e where
    e: "evals st = evals st0 @ [e]" "evaluated_on_all env cfg datasets ca task_labels run t e"
    by blast
  from Suc.IH[OF b] have ih: "length (evals st0) = t"
    "\<forall>k<t. evaluated_on_all env cfg datasets ca task_labels run k (evals st0 ! k)"
    by simp_all
  show ?case
    using e ih by (auto simp: nth_append less_Suc_eq)
qed

lemma train_run_evals:
  assumes "snd (train_run env cfg datasets ca task_labels run) = Inr es"
  shows "length es = length datasets \<and>
         (\<forall>k<length datasets. evaluated_on_all env cfg datasets ca task_labels run k (es ! k))"
proof -
  from assms obtain st where
    "snd (tasks_before env cfg datasets ca task_labels run (length datasets)) = Inr st"
    "es = evals st"
    unfolding train_run_def by (auto simp: snd_and_then split: sum.splits)
  with tasks_before_evals[of env cfg datasets ca task_labels run "length datasets" st]
  show ?thesis by simp
qed

lemma for_each_collect:
  assumes "snd (for_each ks (\<lambda>k acc. and_then (f k) (\<lambda>e. ok (acc @ [e]))) acc0) = Inr out"
  shows "\<exists>es. out = acc0 @ es \<and> length es = length ks \<and>
           (\<forall>i<length ks. snd (f (ks ! i)) = Inr (es ! i))"
  using assms
proof (induction ks arbitrary: acc0)
  case Nil
  then show ?case by simp
next
  case (Cons k ks)
  then obtain e where e: "snd (f k) = Inr e"
    and rest: "snd (for_each ks (\<lambda>k acc. and_then (f k) (\<lambda>e. ok (acc @ [e]))) (acc0 @ [e]))
                 = Inr out"
    by (auto simp: snd_and_then split: sum.splits)
  from Cons.IH[OF rest] obtain es where
    es: "out = (acc0 @ [e]) @ es" "length es = length ks"
      "\<forall>i<length ks. snd (f (ks ! i)) = Inr (es ! i)"
    by blast
  have "out = acc0 @ (e # es)" using es(1) by simp
  moreover have "length (e # es) = length (k # ks)" using es(2) by simp
  moreover have "\<forall>i<length (k # ks). snd (f ((k # ks) ! i)) = Inr ((e # es) ! i)"
    using e es(3) by (auto simp: nth_Cons split: nat.splits)
  ultimately show ?case by blast
qed

lemma train_task_sequence_evals:
  assumes "snd (train_task_sequence env cfg datasets ca task_labels) = Inr runs"
  shows "length runs = nat (num_runs cfg) \<and>
         (\<forall>run<length runs. length (runs ! run) = length datasets \<and>
            (\<forall>t<length datasets.
               evaluated_on_all env cfg datasets ca task_labels run t (runs ! run ! t)))"
proof -
  from for_each_collect[OF assms[unfolded train_task_sequence_def]]
  obtain es where es: "runs = [] @ es" "length es = length [0..<nat (num_runs cfg)]"
    "\<forall>i<length [0..<nat (num_runs cfg)].
       snd (train_run env cfg datasets ca task_labels ([0..<nat (num_runs cfg)] ! i)) = Inr (es ! i)"
    by blast
  have r: "runs = es" "length runs = nat (num_runs cfg)" using es(1,2) by simp_all
  have "\<forall>run<length runs. snd (train_run env cfg datasets ca task_labels run) = Inr (runs ! run)"
    using es(3) r by simp
  with train_run_evals[of env cfg datasets ca task_labels] r show ?thesis by blast
qed


section \<open>The claims\<close>

text \<open>
  C6. For every task \<open>t\<close>, the attribute mask built for multi-head training and evaluation has
  the shape of the class-attribute matrix, equals it on exactly the rows of the task's class
  range \<open>[t * ncpt, (t + 1) * ncpt)\<close>, \<open>ncpt\<close> being the number of classes per task, and is zero
  on every other row.
\<close>

theorem attribute_mask_task_rows:
  "length (attribute_mask ca ncpt t) = length ca \<and>
   (\<forall>r<length ca.
      attribute_mask ca ncpt t ! r =
        (if t * ncpt \<le> r \<and> r < (t + 1) * ncpt then ca ! r
         else map (\<lambda>_. 0) (ca ! r)))"
  using attribute_mask_length attribute_mask_nth by blast

theorem attribute_mask_task_rows_witness:
  "attribute_mask [[1, 2], [3, 4], [5, 6], [7, 8]] 2 1 ! 2 = [5, 6] \<and>
   attribute_mask [[1, 2], [3, 4], [5, 6], [7, 8]] 2 1 ! 1 = [0, 0] \<and>
   length (attribute_mask [[1, 2], [3, 4], [5, 6], [7, 8]] 2 1) = 4"
proof -
  note m = attribute_mask_task_rows[of "[[1, 2], [3, 4], [5, 6], [7, 8]]" 2 1]
  from m[THEN conjunct2, rule_format, of 2] m[THEN conjunct2, rule_format, of 1]
    m[THEN conjunct1]
  show ?thesis by simp
qed

text \<open>
  C9. When the assembled training set has strictly more examples than the batch size, the
  batch offset \<open>(iters * batch_size) mod (num_train_examples - batch_size)\<close> lies in
  \<open>[0, num_train_examples - batch_size)\<close>, and (the batch size being a count, so not negative,
  and the three shuffled arrays having \<open>num_train_examples\<close> rows) the slices of images, labels
  and sample weights fed to the step hold exactly \<open>batch_size\<close> elements each; when it has
  exactly \<open>batch_size\<close> examples the offset is a modulo by zero and no feed is built: the step
  fails with ZeroDivisionError.
\<close>

theorem train_batch_offset:
  "(bs < int (num_train_examples loc) \<longrightarrow>
      (\<exists>offset. batch_offset iters bs (num_train_examples loc) = Inr offset \<and>
         0 \<le> offset \<and> offset < int (num_train_examples loc) - bs \<and>
         (0 \<le> bs \<and> length (train_x loc) = num_train_examples loc \<and>
          length (train_y loc) = num_train_examples loc \<and>
          length (task_sample_weights loc) = num_train_examples loc \<longrightarrow>
            (\<exists>f. train_feed loc bs iters = Inr f \<and>
                 int (length (feed_x f)) = bs \<and>
                 int (length (feed_y f)) = bs \<and>
                 int (length (feed_sample_weights f)) = bs)))) \<and>
   (bs = int (num_train_examples loc) \<longrightarrow>
      batch_offset iters bs (num_train_examples loc) = Inl ZeroDivisionError \<and>
      train_feed loc bs iters = Inl ZeroDivisionError)"
proof (intro conjI impI)
  let ?n = "num_train_examples loc"
  assume lt: "bs < int ?n"
  define offset where "offset = (int iters * bs) mod (int ?n - bs)"
  have o: "batch_offset iters bs ?n = Inr offset"
    using lt by (simp add: batch_offset_def py_mod_def offset_def)
  have lo: "0 \<le> offset" and hi: "offset < int ?n - bs"
    using lt by (simp_all add: offset_def)
  have feed: "\<exists>f. train_feed loc bs iters = Inr f \<and>
                 int (length (feed_x f)) = bs \<and>
                 int (length (feed_y f)) = bs \<and>
                 int (length (feed_sample_weights f)) = bs"
    if h: "0 \<le> bs \<and> length (train_x loc) = ?n \<and> length (train_y loc) = ?n \<and>
          length (task_sample_weights loc) = ?n"
  proof -
    have "offset + bs \<le> int ?n" using hi by simp
    then have "length (py_slice (train_x loc) offset (offset + bs)) = nat bs"
      and "length (py_slice (train_y loc) offset (offset + bs)) = nat bs"
      and "length (py_slice (task_sample_weights loc) offset (offset + bs)) = nat bs"
      using h lo by (simp_all add: py_slice_length_in_range)
    then show ?thesis using h by (simp add: train_feed_def o)
  qed
  show "\<exists>offset. batch_offset iters bs ?n = Inr offset \<and>
         0 \<le> offset \<and> offset < int ?n - bs \<and>
         (0 \<le> bs \<and> length (train_x loc) = ?n \<and> length (train_y loc) = ?n \<and>
          length (task_sample_weights loc) = ?n \<longrightarrow>
            (\<exists>f. train_feed loc bs iters = Inr f \<and>
                 int (length (feed_x f)) = bs \<and>
                 int (length (feed_y f)) = bs \<and>
                 int (length (feed_sample_weights f)) = bs))"
    using o lo hi feed by blast
next
  assume "bs = int (num_train_examples loc)"
  then show "batch_offset iters bs (num_train_examples loc) = Inl ZeroDivisionError"
    by (simp add: batch_offset_def py_mod_def)
next
  assume "bs = int (num_train_examples loc)"
  then show "train_feed loc bs iters = Inl ZeroDivisionError"
    by (simp add: train_feed_def batch_offset_def py_mod_def)
qed

theorem train_batch_offset_witness:
  "(\<exists>offset. batch_offset 4 2 5 = Inr offset \<and> 0 \<le> offset \<and> offset < 3) \<and>
   (\<exists>f. train_feed \<lparr> num_train_examples = 5, num_iters = 4,
            train_x = [10, 11, 12, 13, 14 :: nat], train_y = [0, 0, 1, 1, 0],
            task_sample_weights = [1, 1, 1, 1, 1], masked_class_attrs = [] \<rparr> 2 4 = Inr f \<and>
        length (feed_x f) = 2 \<and> length (feed_y f) = 2 \<and> length (feed_sample_weights f) = 2) \<and>
   train_feed \<lparr> num_train_examples = 2, num_iters = 4, train_x = [10, 11 :: nat],
       train_y = [0, 1], task_sample_weights = [1, 1], masked_class_attrs = [] \<rparr> 2 1
     = Inl ZeroDivisionError"
  using train_batch_offset[of 2 "\<lparr> num_train_examples = 5, num_iters = 4,
            train_x = [10, 11, 12, 13, 14 :: nat], train_y = [0, 0, 1, 1, 0],
            task_sample_weights = [1, 1, 1, 1, 1], masked_class_attrs = [] \<rparr>" 4]
    train_batch_offset[of 2 "\<lparr> num_train_examples = 2, num_iters = 4, train_x = [10, 11 :: nat],
       train_y = [0, 1], task_sample_weights = [1, 1], masked_class_attrs = [] \<rparr>" 1]
  by simp blast

text \<open>
  C2. Single-head evaluation is meant to score against the full class-attribute matrix. The
  code never binds \<^verbatim>\<open>masked_class_attrs\<close> on that path: evaluating one task of ten test
  examples in single-head mode stops with an UnboundLocalError at the first feed dictionary.
\<close>

theorem single_head_evaluation_fails:
  "test_task_sequence (\<lambda>_ _ _. True)
     [\<lparr>train = \<lparr>images = [0..<10::nat], labels = replicate 10 0\<rparr>,
       test = \<lparr>images = [0..<10], labels = replicate 10 0\<rparr>\<rparr>]
     [[1, 0], [0, 1]] 2 [[0, 1]] False True = Inl (UnboundLocalError ''masked_class_attrs'')"
  by (simp add: test_task_sequence_def test_task_def test_locals_init_def py_index_def
       samples_at_a_time_def upt_conv_Cons)

text \<open>
  C4. Chunked scoring is meant to count every example once for a test set of any size. With
  fewer than ten test examples the chunk loop never binds its variable \<^verbatim>\<open>i\<close>, which the
  residual chunk reads: on the first task the Evaluator stops with an UnboundLocalError; on
  a later task it reads the value left by an earlier task, so that after a task of 25
  examples a task of 7 examples, all of them correct, is scored 0 of 7.
\<close>

theorem residual_chunk_small_test_set:
  "test_task_sequence (\<lambda>_ _ _. True)
     [\<lparr>train = \<lparr>images = [0..<7::nat], labels = replicate 7 0\<rparr>,
       test = \<lparr>images = [0..<7], labels = replicate 7 0\<rparr>\<rparr>]
     [[1, 0], [0, 1]] 2 [[0, 1]] False False = Inl (UnboundLocalError ''i'') \<and>
   test_task_sequence (\<lambda>_ _ _. True)
     [\<lparr>train = \<lparr>images = [0..<25::nat], labels = replicate 25 0\<rparr>,
       test = \<lparr>images = [0..<25], labels = replicate 25 0\<rparr>\<rparr>,
      \<lparr>train = \<lparr>images = [0..<7::nat], labels = replicate 7 1\<rparr>,
       test = \<lparr>images = [0..<7], labels = replicate 7 1\<rparr>\<rparr>]
     [[1, 0], [0, 1]] 1 [[0], [1]] False False = Inr [Fin 1, Fin 0] \<and>
   one_pass_corrects (\<lambda>_ _ _. True) (attribute_mask [[1, 0], [0, 1]] 1 1)
     \<lparr>images = [0..<7::nat], labels = replicate 7 1\<rparr> = 7"
  by (simp add: test_task_sequence_def test_task_def test_locals_init_def py_index_def
       samples_at_a_time_def upt_conv_Cons Let_def py_slice_def slice_index_def
       np_sum_def correct_predictions_def accuracy_def attribute_mask_def zeros_like_def
       set_rows_def one_pass_corrects_def)

text \<open>
  C1. As stated the claim fails: the script hands the Evaluator the labels of all the tasks
  at every invocation, so the sequence returned after training task 0 of two tasks already
  holds two accuracies, the second for task 1, which is not yet trained.
\<close>

theorem evaluation_after_first_task_covers_both:
  "train_task_sequence (example_env VAN (\<lambda>_ _ _. Fin 1)) (example_config 1)
     [example_dataset 10 0, example_dataset 10 1] [[1, 0], [0, 1]] [[0], [1]] =
   ([GlobalInit 0, InitUpdates 0, SessRun 0 0 0 [Train, RegLoss], TaskUpdates 0 0,
     Evaluate 0 0 None True, Evaluate 0 0 None False, ResetOptimizer 0 0, Restore 0 1,
     SessRun 0 1 0 [Train, RegLoss], Evaluate 0 1 None True, Evaluate 0 1 None False,
     ResetOptimizer 0 1],
    Inr [[Accs [Fin 1, Fin 1], Accs [Fin 1, Fin 1]]])"
  by (simp add: run_eval)

text \<open>
  C1, amended. Whenever the Evaluator returns, it gives one accuracy for each entry of the
  list of tasks it is handed, in the order of that list; in multi-head mode, when every
  listed task has a data set of at least ten examples, it returns, and the value for task
  \<open>k\<close> is the accuracy of task \<open>k\<close> under the mask of its own classes. The script hands it the
  data sets and the labels of all the tasks, whatever task was trained last: when the script
  completes, it returns one record for each run and, in it, one entry for each trained task
  \<open>t\<close>. In fixed-iteration or cross-validation mode the entry is the list that the Evaluator
  returns on all the data sets and all the task labels with the model as it is after task
  \<open>t\<close> (line 392), and the evaluation on the training data that precedes it (line 391) has
  returned such a list too; in single-epoch mode without cross validation the entry is a
  non-empty list of snapshots (lines 251 and 386), each of them such a list for the model at
  some point of task \<open>t\<close>. Every one of these lists has one value for each task of the whole
  sequence, not only for the tasks up to \<open>t\<close>.
\<close>

theorem every_evaluation_covers_all_tasks:
  "(\<forall>accs. test_task_sequence cp datasets ca ncpt task_labels cv single = Inr accs \<longrightarrow>
      length accs = length task_labels) \<and>
   (length task_labels \<le> length datasets \<and>
    (\<forall>k<length task_labels.
       samples_at_a_time \<le> length (images (if cv then train (datasets ! k) else test (datasets ! k)))) \<longrightarrow>
      test_task_sequence cp datasets ca ncpt task_labels cv False =
        Inr (map (task_accuracy cp datasets ca ncpt cv) [0..<length task_labels])) \<and>
   (\<forall>runs. snd (train_task_sequence env cfg datasets ca task_labels) = Inr runs \<longrightarrow>
      length runs = nat (num_runs cfg) \<and>
      (\<forall>run<length runs.
         length (runs ! run) = length datasets \<and>
         (\<forall>t<length datasets.
            (case runs ! run ! t of
               Accs a \<Rightarrow>
                 \<not> (train_single_epoch cfg \<and> \<not> cross_validate_mode cfg) \<and>
                 length a = length task_labels \<and>
                 test_task_sequence (scorer env run t None) datasets ca
                   (num_classes_per_task cfg) task_labels (cross_validate_mode cfg)
                   (eval_single_head cfg) = Inr a \<and>
                 (\<exists>b. length b = length task_labels \<and>
                    test_task_sequence (scorer env run t None) datasets ca
                      (num_classes_per_task cfg) task_labels True (eval_single_head cfg) = Inr b)
             | Snapshots ss \<Rightarrow>
                 train_single_epoch cfg \<and> \<not> cross_validate_mode cfg \<and> ss \<noteq> [] \<and>
                 (\<forall>a\<in>set ss.
                    length a = length task_labels \<and>
                    (\<exists>point.
                       test_task_sequence (scorer env run t point) datasets ca
                         (num_classes_per_task cfg) task_labels (cross_validate_mode cfg)
                         (eval_single_head cfg) = Inr a))))))"
proof (intro conjI allI impI)
  fix accs
  assume "test_task_sequence cp datasets ca ncpt task_labels cv single = Inr accs"
  then show "length accs = length task_labels" by (rule test_task_sequence_length)
next
  assume "length task_labels \<le> length datasets \<and>
    (\<forall>k<length task_labels.
       samples_at_a_time \<le> length (images (if cv then train (datasets ! k) else test (datasets ! k))))"
  then show "test_task_sequence cp datasets ca ncpt task_labels cv False =
        Inr (map (task_accuracy cp datasets ca ncpt cv) [0..<length task_labels])"
    using test_task_sequence_multi_head[of task_labels datasets cv cp ca ncpt] by blast
next
  fix runs
  assume r: "snd (train_task_sequence env cfg datasets ca task_labels) = Inr runs"
  from train_task_sequence_evals[OF r] show "length runs = nat (num_runs cfg)" by blast
next
  fix runs run
  assume r: "snd (train_task_sequence env cfg datasets ca task_labels) = Inr runs"
    and "run < length runs"
  with train_task_sequence_evals[OF r] show "length (runs ! run) = length datasets" by blast
next
  fix runs run t
  assume r: "snd (train_task_sequence env cfg datasets ca task_labels) = Inr runs"
    and "run < length runs" "t < length datasets"
  with train_task_sequence_evals[OF r]
  have "evaluated_on_all env cfg datasets ca task_labels run t (runs ! run ! t)" by blast
  then show "case runs ! run ! t of
               Accs a \<Rightarrow>
                 \<not> (train_single_epoch cfg \<and> \<not> cross_validate_mode cfg) \<and>
                 length a = length task_labels \<and>
                 test_task_sequence (scorer env run t None) datasets ca
                   (num_classes_per_task cfg) task_labels (cross_validate_mode cfg)
                   (eval_single_head cfg) = Inr a \<and>
                 (\<exists>b. length b = length task_labels \<and>
                    test_task_sequence (scorer env run t None) datasets ca
                      (num_classes_per_task cfg) task_labels True (eval_single_head cfg) = Inr b)
             | Snapshots ss \<Rightarrow>
                 train_single_epoch cfg \<and> \<not> cross_validate_mode cfg \<and> ss \<noteq> [] \<and>
                 (\<forall>a\<in>set ss.
                    length a = length task_labels \<and>
                    (\<exists>point.
                       test_task_sequence (scorer env run t point) datasets ca
                         (num_classes_per_task cfg) task_labels (cross_validate_mode cfg)
                         (eval_single_head cfg) = Inr a))"
    unfolding evaluated_on_all_def
    by (auto split: task_evals.splits dest: test_task_sequence_length)
qed

theorem every_evaluation_covers_all_tasks_witness:
  "snd (train_task_sequence (example_env VAN (\<lambda>_ _ _. Fin 1)) (example_config 1)
         [example_dataset 10 0, example_dataset 10 1] [[1, 0], [0, 1]] [[0], [1]]) =
     Inr [[Accs [Fin 1, Fin 1], Accs [Fin 1, Fin 1]]] \<and>
   test_task_sequence (scorer (example_env VAN (\<lambda>_ _ _. Fin 1)) 0 0 None)
     [example_dataset 10 0, example_dataset 10 1] [[1, 0], [0, 1]]
     (num_classes_per_task (example_config 1)) [[0], [1]]
     (cross_validate_mode (example_config 1)) (eval_single_head (example_config 1)) =
     Inr [Fin 1, Fin 1] \<and>
   length [Fin 1, Fin 1] = length [[0], [1::nat]] \<and>
   length [[0], [1::nat]] \<le> length [example_dataset 10 0, example_dataset 10 1] \<and>
   test_task_sequence (\<lambda>_ _ _. True) [example_dataset 10 0, example_dataset 10 1]
     [[1, 0], [0, 1]] 1 [[0], [1]] False False = Inr [Fin 1, Fin 1]"
proof -
  let ?E = "example_env VAN (\<lambda>_ _ _. Fin 1)"
  let ?D = "[example_dataset 10 0, example_dataset 10 1]"
  note t = every_evaluation_covers_all_tasks[of "\<lambda>_ _ _. True" ?D "[[1, 0], [0, 1]]" 1
      "[[0], [1]]" False False ?E "example_config 1"]
  have h: "length [[0], [1::nat]] \<le> length ?D \<and>
    (\<forall>k<length [[0], [1::nat]].
       samples_at_a_time \<le> length (images (if False then train (?D ! k) else test (?D ! k))))"
    by (auto simp: samples_at_a_time_def example_dataset_def less_Suc_eq)
  have r: "snd (train_task_sequence ?E (example_config 1) ?D [[1, 0], [0, 1]] [[0], [1]]) =
     Inr [[Accs [Fin 1, Fin 1], Accs [Fin 1, Fin 1]]]"
    by (simp add: run_eval)
  from t r have "\<forall>run<length [[Accs [Fin 1, Fin 1], Accs [Fin 1, Fin 1]]].
      \<forall>t<length ?D.
            (case [[Accs [Fin 1, Fin 1], Accs [Fin 1, Fin 1]]] ! run ! t of
               Accs a \<Rightarrow>
                 \<not> (train_single_epoch (example_config 1) \<and> \<not> cross_validate_mode (example_config 1)) \<and>
                 length a = length [[0], [1::nat]] \<and>
                 test_task_sequence (scorer ?E run t None) ?D [[1, 0], [0, 1]]
                   (num_classes_per_task (example_config 1)) [[0], [1]] (cross_validate_mode (example_config 1))
                   (eval_single_head (example_config 1)) = Inr a \<and>
                 (\<exists>b. length b = length [[0], [1::nat]] \<and>
                    test_task_sequence (scorer ?E run t None) ?D [[1, 0], [0, 1]]
                      (num_classes_per_task (example_config 1)) [[0], [1]] True
                      (eval_single_head (example_config 1)) = Inr b)
             | Snapshots ss \<Rightarrow>
                 train_single_epoch (example_config 1) \<and> \<not> cross_validate_mode (example_config 1) \<and> ss \<noteq> [] \<and>
                 (\<forall>a\<in>set ss.
                    length a = length [[0], [1::nat]] \<and>
                    (\<exists>point.
                       test_task_sequence (scorer ?E run t point) ?D [[1, 0], [0, 1]]
                         (num_classes_per_task (example_config 1)) [[0], [1]] (cross_validate_mode (example_config 1))
                         (eval_single_head (example_config 1)) = Inr a)))"
    by blast
  then have e: "test_task_sequence (scorer ?E 0 0 None) ?D [[1, 0], [0, 1]]
                   (num_classes_per_task (example_config 1)) [[0], [1]] (cross_validate_mode (example_config 1))
                   (eval_single_head (example_config 1)) = Inr [Fin 1, Fin 1]"
    by force
  from t h have "test_task_sequence (\<lambda>_ _ _. True) ?D [[1, 0], [0, 1]] 1 [[0], [1]] False False =
     Inr (map (task_accuracy (\<lambda>_ _ _. True) ?D [[1, 0], [0, 1]] 1 False) [0..<length [[0], [1::nat]]])"
    by blast
  then have b: "test_task_sequence (\<lambda>_ _ _. True) ?D [[1, 0], [0, 1]] 1 [[0], [1]] False False =
     Inr [Fin 1, Fin 1]"
    by (simp add: upt_conv_Cons task_accuracy_def accuracy_def one_pass_corrects_def np_sum_def
          correct_predictions_def example_dataset_def)
  from r e b show ?thesis by simp
qed

text \<open>
  C3. As stated the claim fails for the infinities: the script tests the loss with
  \<^verbatim>\<open>math.isnan\<close> only. With a loss of plus infinity at iteration 0 the run goes on to
  iteration 1, to the evaluation and to its normal end.
\<close>

theorem infinite_loss_continues:
  "train_task_sequence (example_env VAN (\<lambda>_ _ k. if k = 0 then PInf else Fin 1))
     (example_config 2) [example_dataset 10 0] [[1]] [[0]] =
   ([GlobalInit 0, InitUpdates 0, SessRun 0 0 0 [Train, RegLoss],
     SessRun 0 0 1 [Train, RegLoss], Evaluate 0 0 None True, Evaluate 0 0 None False,
     ResetOptimizer 0 0],
    Inr [[Accs [Fin 1]]])"
  by (simp add: run_eval)

text \<open>
  C3, amended. For every run and every method, if the loss that the training step of an
  iteration returns is NaN, the process ends with \<^verbatim>\<open>sys.exit(0)\<close> within that iteration: the
  last event of the whole trace is a \<^verbatim>\<open>sess.run\<close> of that very iteration, so no later
  training step, task update or evaluation runs. (An infinite loss does not end the
  process.)
\<close>

theorem nan_loss_exits:
  assumes "reg_loss env run task iters = NaN"
    and "SessRun run task iters ops \<in> set (fst (train_task_sequence env cfg datasets ca task_labels))"
    and "RegLoss \<in> set ops"
  shows "snd (train_task_sequence env cfg datasets ca task_labels) = Inl (SystemExit 0) \<and>
         (\<exists>ops'. last (fst (train_task_sequence env cfg datasets ca task_labels))
                    = SessRun run task iters ops')"
  using stops_at_train_task_sequence[OF assms(1), of cfg datasets ca task_labels] assms(2,3)
  unfolding stops_at_def by blast

theorem nan_loss_exits_witness:
  "reg_loss (example_env GEM (\<lambda>_ t k. if t = 1 \<and> k = 1 then NaN else PInf)) 0 1 1 = NaN \<and>
   SessRun 0 1 1 [TaskGrads, StoreTaskGradients, RegLoss] \<in>
     set (fst (train_task_sequence (example_env GEM (\<lambda>_ t k. if t = 1 \<and> k = 1 then NaN else PInf))
       (example_config 3) [example_dataset 10 0, example_dataset 10 1] [[1, 0], [0, 1]]
       [[0], [1]])) \<and>
   snd (train_task_sequence (example_env GEM (\<lambda>_ t k. if t = 1 \<and> k = 1 then NaN else PInf))
       (example_config 3) [example_dataset 10 0, example_dataset 10 1] [[1, 0], [0, 1]]
       [[0], [1]]) = Inl (SystemExit 0) \<and>
   last (fst (train_task_sequence (example_env GEM (\<lambda>_ t k. if t = 1 \<and> k = 1 then NaN else PInf))
       (example_config 3) [example_dataset 10 0, example_dataset 10 1] [[1, 0], [0, 1]]
       [[0], [1]])) = SessRun 0 1 1 [TrainSubseqTasks]"
proof -
  let ?E = "example_env GEM (\<lambda>_ t k. if t = 1 \<and> k = 1 then NaN else PInf)"
  let ?R = "train_task_sequence ?E (example_config 3)
       [example_dataset 10 0, example_dataset 10 1] [[1, 0], [0, 1]] [[0], [1]]"
  have a: "reg_loss ?E 0 1 1 = NaN" by (simp add: example_env_def)
  have tr: "fst ?R =
    [GlobalInit 0, InitUpdates 0, SessRun 0 0 0 [TrainFirstTask, RegLoss],
     SessRun 0 0 1 [TrainFirstTask, RegLoss], SessRun 0 0 2 [TrainFirstTask, RegLoss],
     TaskUpdates 0 0, Evaluate 0 0 None True, Evaluate 0 0 None False, ResetOptimizer 0 0,
     Restore 0 1,
     SessRun 0 1 0 [TaskGrads, StoreTaskGradients],
     SessRun 0 1 0 [TaskGrads, StoreTaskGradients, RegLoss],
     SessRun 0 1 0 [GemGradientUpdate, StoreGrads], SessRun 0 1 0 [TrainSubseqTasks],
     SessRun 0 1 1 [TaskGrads, StoreTaskGradients],
     SessRun 0 1 1 [TaskGrads, StoreTaskGradients, RegLoss],
     SessRun 0 1 1 [GemGradientUpdate, StoreGrads], SessRun 0 1 1 [TrainSubseqTasks]]"
    by (simp add: run_eval)
  have b: "SessRun 0 1 1 [TaskGrads, StoreTaskGradients, RegLoss] \<in> set (fst ?R)"
    unfolding tr by simp
  have c: "RegLoss \<in> set [TaskGrads, StoreTaskGradients, RegLoss]" by simp
  from nan_loss_exits[OF a b c] have "snd ?R = Inl (SystemExit 0)" by blast
  moreover have "last (fst ?R) = SessRun 0 1 1 [TrainSubseqTasks]" unfolding tr by simp
  ultimately show ?thesis using a b by blast
qed

text \<open>
  C7. As stated the claim fails: the running Fisher estimate is initialised inside the loop
  over the iterations only, at iteration 0 of task 0, so a run whose task 0 has no iteration
  never initialises it. In single-epoch mode with batches of 2, a task 0 of one training
  example has \<^verbatim>\<open>1 // 2 = 0\<close> iterations; task 1, of ten training examples, then trains with
  EWC for five iterations and the script ends normally, with no initialisation in its
  trace.
\<close>

theorem ewc_no_initialisation_without_first_step:
  "train_task_sequence (example_env EWC (\<lambda>_ _ _. Fin 1))
     ((example_config 0)\<lparr>train_single_epoch := True\<rparr>)
     [\<lparr>train = \<lparr>images = [0::nat], labels = [0]\<rparr>,
       test = \<lparr>images = [0..<10], labels = map (\<lambda>_. 0) [0..<10]\<rparr>\<rparr>,
      example_dataset 10 1] [[1, 0], [0, 1]] [[0], [1]] =
   ([GlobalInit 0, InitUpdates 0, TaskUpdates 0 0, Evaluate 0 0 None False,
     ResetOptimizer 0 0, Restore 0 1, Evaluate 0 1 (Some 0) False,
     SessRun 0 1 0 [SetTmpFisher, Train, RegLoss],
     SessRun 0 1 1 [SetTmpFisher, Train, RegLoss],
     SessRun 0 1 2 [SetTmpFisher, Train, RegLoss],
     SessRun 0 1 3 [SetTmpFisher, Train, RegLoss],
     SessRun 0 1 4 [SetTmpFisher, Train, RegLoss], Evaluate 0 1 None False,
     ResetOptimizer 0 1],
    Inr [[Snapshots [[Fin 1, Fin 1]], Snapshots [[Fin 1, Fin 1], [Fin 1, Fin 1]]]])"
  by (simp add: run_eval)

text \<open>
  C7, amended. For EWC with \<^verbatim>\<open>fisher_update_after\<close> 50, in the trace of the whole script: the
  only \<^verbatim>\<open>sess.run\<close> calls are the initialisation of the running Fisher estimate, at iteration
  0 of task 0 only, the commit of the temporary estimate and its reset, at iterations 49,
  99, 149, ... only, and the training step, which accumulates the temporary estimate. A run
  initialises the running estimate exactly once when the training step of iteration 0 of
  its task 0 is executed, and never otherwise. The commit, and likewise the reset, occurs at
  an iteration of a task exactly when that iteration is one of 49, 99, 149, ... and its
  training step is executed. The training step comes as the last event of the schedule of
  its iteration: after the initialisation when it is iteration 0 of task 0, and right after
  the commit and the reset when it is one of the iterations 49, 99, 149, ....
\<close>

theorem ewc_fisher_schedule:
  assumes "imp_method env = EWC" and "fisher_update_after env = 50"
  shows "(\<forall>run task iters ops.
            SessRun run task iters ops \<in> set (fst (train_task_sequence env cfg datasets ca task_labels)) \<longrightarrow>
              (ops = [SetInitialRunningFisher] \<and> task = 0 \<and> iters = 0 \<or>
               ops = [SetRunningFisher] \<and> iters mod 50 = 49 \<or>
               ops = [ResetTmpFisher] \<and> iters mod 50 = 49 \<or>
               ops = [SetTmpFisher, Train, RegLoss])) \<and>
         (\<forall>run. count_list (fst (train_task_sequence env cfg datasets ca task_labels))
                   (SessRun run 0 0 [SetInitialRunningFisher]) =
                 (if SessRun run 0 0 [SetTmpFisher, Train, RegLoss]
                       \<in> set (fst (train_task_sequence env cfg datasets ca task_labels))
                  then 1 else 0)) \<and>
         (\<forall>run task iters.
            (SessRun run task iters [SetRunningFisher]
               \<in> set (fst (train_task_sequence env cfg datasets ca task_labels))) =
            (iters mod 50 = 49 \<and>
             SessRun run task iters [SetTmpFisher, Train, RegLoss]
               \<in> set (fst (train_task_sequence env cfg datasets ca task_labels)))) \<and>
         (\<forall>run task iters.
            (SessRun run task iters [ResetTmpFisher]
               \<in> set (fst (train_task_sequence env cfg datasets ca task_labels))) =
            (iters mod 50 = 49 \<and>
             SessRun run task iters [SetTmpFisher, Train, RegLoss]
               \<in> set (fst (train_task_sequence env cfg datasets ca task_labels)))) \<and>
         (\<forall>run task iters.
            SessRun run task iters [SetTmpFisher, Train, RegLoss]
              \<in> set (fst (train_task_sequence env cfg datasets ca task_labels)) \<longrightarrow>
            (\<exists>pre post. fst (train_task_sequence env cfg datasets ca task_labels) =
               pre @ fisher_schedule run task iters @ post))"
proof (intro conjI)
  show "\<forall>run task iters ops.
            SessRun run task iters ops \<in> set (fst (train_task_sequence env cfg datasets ca task_labels)) \<longrightarrow>
              (ops = [SetInitialRunningFisher] \<and> task = 0 \<and> iters = 0 \<or>
               ops = [SetRunningFisher] \<and> iters mod 50 = 49 \<or>
               ops = [ResetTmpFisher] \<and> iters mod 50 = 49 \<or>
               ops = [SetTmpFisher, Train, RegLoss])"
    using ewc_events[OF assms, of cfg datasets ca task_labels] by blast
  show "\<forall>run. count_list (fst (train_task_sequence env cfg datasets ca task_labels))
                   (SessRun run 0 0 [SetInitialRunningFisher]) =
                 (if SessRun run 0 0 [SetTmpFisher, Train, RegLoss]
                       \<in> set (fst (train_task_sequence env cfg datasets ca task_labels))
                  then 1 else 0)"
    using ewc_init_count[OF assms, of cfg datasets ca task_labels] by blast
  show "\<forall>run task iters.
            (SessRun run task iters [SetRunningFisher]
               \<in> set (fst (train_task_sequence env cfg datasets ca task_labels))) =
            (iters mod 50 = 49 \<and>
             SessRun run task iters [SetTmpFisher, Train, RegLoss]
               \<in> set (fst (train_task_sequence env cfg datasets ca task_labels)))"
    using ewc_commit_iff[OF assms, of "[SetRunningFisher]" _ _ _ cfg datasets ca task_labels]
    by blast
  show "\<forall>run task iters.
            (SessRun run task iters [ResetTmpFisher]
               \<in> set (fst (train_task_sequence env cfg datasets ca task_labels))) =
            (iters mod 50 = 49 \<and>
             SessRun run task iters [SetTmpFisher, Train, RegLoss]
               \<in> set (fst (train_task_sequence env cfg datasets ca task_labels)))"
    using ewc_commit_iff[OF assms, of "[ResetTmpFisher]" _ _ _ cfg datasets ca task_labels]
    by blast
  show "\<forall>run task iters.
            SessRun run task iters [SetTmpFisher, Train, RegLoss]
              \<in> set (fst (train_task_sequence env cfg datasets ca task_labels)) \<longrightarrow>
            (\<exists>pre post. fst (train_task_sequence env cfg datasets ca task_labels) =
               pre @ fisher_schedule run task iters @ post)"
    using ewc_blocks[OF assms, of cfg datasets ca task_labels] by blast
qed

theorem ewc_fisher_schedule_witness:
  "imp_method (example_env EWC (\<lambda>_ _ _. Fin 1)) = EWC \<and>
   fisher_update_after (example_env EWC (\<lambda>_ _ _. Fin 1)) = 50 \<and>
   SessRun 0 0 0 [SetTmpFisher, Train, RegLoss] \<in> set (fst (train_task_sequence
      (example_env EWC (\<lambda>_ _ _. Fin 1)) (example_config 50) [example_dataset 10 0] [[1]] [[0]])) \<and>
   SessRun 0 0 49 [SetTmpFisher, Train, RegLoss] \<in> set (fst (train_task_sequence
      (example_env EWC (\<lambda>_ _ _. Fin 1)) (example_config 50) [example_dataset 10 0] [[1]] [[0]])) \<and>
   count_list (fst (train_task_sequence
      (example_env EWC (\<lambda>_ _ _. Fin 1)) (example_config 50) [example_dataset 10 0] [[1]] [[0]]))
      (SessRun 0 0 0 [SetInitialRunningFisher]) = 1 \<and>
   SessRun 0 0 49 [SetRunningFisher] \<in> set (fst (train_task_sequence
      (example_env EWC (\<lambda>_ _ _. Fin 1)) (example_config 50) [example_dataset 10 0] [[1]] [[0]])) \<and>
   SessRun 0 0 49 [ResetTmpFisher] \<in> set (fst (train_task_sequence
      (example_env EWC (\<lambda>_ _ _. Fin 1)) (example_config 50) [example_dataset 10 0] [[1]] [[0]])) \<and>
   SessRun 0 0 48 [SetRunningFisher] \<notin> set (fst (train_task_sequence
      (example_env EWC (\<lambda>_ _ _. Fin 1)) (example_config 50) [example_dataset 10 0] [[1]] [[0]])) \<and>
   (\<exists>pre post. fst (train_task_sequence
      (example_env EWC (\<lambda>_ _ _. Fin 1)) (example_config 50) [example_dataset 10 0] [[1]] [[0]]) =
      pre @ [SessRun 0 0 49 [SetRunningFisher], SessRun 0 0 49 [ResetTmpFisher],
             SessRun 0 0 49 [SetTmpFisher, Train, RegLoss]] @ post)"
proof -
  let ?E = "example_env EWC (\<lambda>_ _ _. Fin 1)"
  let ?T = "fst (train_task_sequence ?E (example_config 50) [example_dataset 10 0] [[1]] [[0]])"
  have a: "imp_method ?E = EWC" and b: "fisher_update_after ?E = 50"
    by (simp_all add: example_env_def)
  note t = ewc_fisher_schedule[OF a b, of "example_config 50" "[example_dataset 10 0]" "[[1]]" "[[0]]"]
  have m0: "SessRun 0 0 0 [SetTmpFisher, Train, RegLoss] \<in> set ?T"
    by (simp add: run_eval)
  have m: "SessRun 0 0 49 [SetTmpFisher, Train, RegLoss] \<in> set ?T"
    by (simp add: run_eval)
  from t m have "\<exists>pre post. ?T = pre @ fisher_schedule 0 0 49 @ post" by blast
  moreover have "fisher_schedule 0 0 49 = [SessRun 0 0 49 [SetRunningFisher],
      SessRun 0 0 49 [ResetTmpFisher], SessRun 0 0 49 [SetTmpFisher, Train, RegLoss]]"
    by (simp add: fisher_schedule_def)
  moreover from t m0 have "count_list ?T (SessRun 0 0 0 [SetInitialRunningFisher]) = 1"
    by simp
  moreover from t m have "SessRun 0 0 49 [SetRunningFisher] \<in> set ?T"
    by simp
  moreover from t m have "SessRun 0 0 49 [ResetTmpFisher] \<in> set ?T"
    by simp
  moreover from t have "SessRun 0 0 48 [SetRunningFisher] \<notin> set ?T"
    by simp
  ultimately show ?thesis using a b m0 m by simp
qed

text \<open>
  C10. For GEM, when the training of task \<open>t\<close> begins (the tasks before it are done and \<open>t\<close> is
  a task of the sequence), the episodic memory holds exactly \<open>t\<close> entries, entry \<open>j\<close> being the
  sample drawn after the training of task \<open>j\<close>; the training loop leaves the memory as it
  is, so at every iteration of task \<open>t\<close> the loop over \<^verbatim>\<open>range(task)\<close> finds each entry it
  indexes and the step of the method does not fail. Nothing is appended after the last task.
\<close>

theorem gem_memory_holds_previous_tasks:
  assumes "imp_method env = GEM"
    and "t < length datasets"
    and "snd (tasks_before env cfg datasets ca task_labels run t) = Inr st"
  shows "length (task_based_memory st) = t \<and>
         task_based_memory st = map (episodic_sample env cfg datasets task_labels run) [0..<t] \<and>
         (\<forall>iters. reference_gradients run t iters (task_based_memory st) [0..<t] =
            (replicate t (SessRun run t iters [TaskGrads, StoreTaskGradients]), Inr ())) \<and>
         (\<forall>iters. snd (train_ops env run t iters (task_based_memory st)) = Inr ()) \<and>
         (\<forall>loc st'. snd (train_loop env cfg datasets ca task_labels run t loc st) = Inr st' \<longrightarrow>
            task_based_memory st' = task_based_memory st) \<and>
         (\<forall>st'. snd (tasks_before env cfg datasets ca task_labels run (length datasets)) = Inr st' \<longrightarrow>
            length (task_based_memory st') = length datasets - 1)"
proof -
  have le: "t \<le> length datasets" and m: "min t (length datasets - 1) = t"
    using assms(2) by simp_all
  from tasks_before_stores[OF le assms(3)] assms(1)
  have mem: "task_based_memory st = map (episodic_sample env cfg datasets task_labels run) [0..<t]"
    unfolding m by simp
  then have len: "length (task_based_memory st) = t" by simp
  have "\<forall>p\<in>set [0..<t]. p < length (task_based_memory st)" using len by simp
  from reference_gradients_ok[OF this]
  have ref: "\<forall>iters. reference_gradients run t iters (task_based_memory st) [0..<t] =
            (replicate t (SessRun run t iters [TaskGrads, StoreTaskGradients]), Inr ())"
    by simp
  have ops: "\<forall>iters. snd (train_ops env run t iters (task_based_memory st)) = Inr ()"
    using gem_train_ops_ok[OF assms(1), of t "task_based_memory st"] len by simp
  have loop: "\<forall>loc st'. snd (train_loop env cfg datasets ca task_labels run t loc st) = Inr st' \<longrightarrow>
            task_based_memory st' = task_based_memory st"
    using train_loop_stores[of env cfg datasets ca task_labels run t] by (auto simp: stores_def)
  have fin: "\<forall>st'. snd (tasks_before env cfg datasets ca task_labels run (length datasets)) = Inr st' \<longrightarrow>
            length (task_based_memory st') = length datasets - 1"
    using tasks_before_stores[of "length datasets" datasets env cfg ca task_labels run] assms(1)
    by auto
  from len mem ref ops loop fin show ?thesis by blast
qed

theorem gem_memory_holds_previous_tasks_witness:
  "imp_method (example_env GEM (\<lambda>_ _ _. Fin 1)) = GEM \<and>
   (\<exists>st. snd (tasks_before (example_env GEM (\<lambda>_ _ _. Fin 1)) (example_config 1)
              [example_dataset 10 0, example_dataset 10 1, example_dataset 10 2]
              [[1], [1], [1]] [[0], [1], [2]] 0 2) = Inr st \<and>
         length (task_based_memory st) = 2 \<and>
         snd (train_ops (example_env GEM (\<lambda>_ _ _. Fin 1)) 0 2 0 (task_based_memory st)) = Inr ())"
proof -
  let ?E = "example_env GEM (\<lambda>_ _ _. Fin 1)"
  let ?D = "[example_dataset 10 0, example_dataset 10 1, example_dataset 10 2]"
  have a: "imp_method ?E = GEM" by (simp add: example_env_def)
  have b: "2 < length ?D" by simp
  have "\<exists>st. snd (tasks_before ?E (example_config 1) ?D [[1], [1], [1]] [[0], [1], [2]] 0 2) = Inr st"
    by (simp add: run_eval)
  then obtain st where
    c: "snd (tasks_before ?E (example_config 1) ?D [[1], [1], [1]] [[0], [1], [2]] 0 2) = Inr st" ..
  from gem_memory_holds_previous_tasks[OF a b c]
  have "length (task_based_memory st) = 2"
    and "snd (train_ops ?E 0 2 0 (task_based_memory st)) = Inr ()" by blast+
  with a c show ?thesis by blast
qed

text \<open>
  C5. As stated the claim fails: the buffer grows by one draw for each completed task that
  is not the last, so its size is linear in the number of completed tasks and not the
  product of that number with the number of classes observed. With one class per task and
  one sample per class the buffer holds 1 example after the first task (the claim's formula
  gives 0 when the first task is counted as \<open>k = 0\<close>) and 2 examples after the second task
  (the formula gives 4 when that task is counted as \<open>k = 2\<close>).
\<close>

theorem replay_buffer_size_is_linear:
  "replay_buffer_size_before (example_env VAN (\<lambda>_ _ _. Fin 1))
      ((example_config 0)\<lparr>do_sampling := True\<rparr>)
      [example_dataset 10 0, example_dataset 10 1, example_dataset 10 2]
      [[1], [1], [1]] [[0], [1], [2]] 0 1 = Inr 1 \<and>
   replay_buffer_size_before (example_env VAN (\<lambda>_ _ _. Fin 1))
      ((example_config 0)\<lparr>do_sampling := True\<rparr>)
      [example_dataset 10 0, example_dataset 10 1, example_dataset 10 2]
      [[1], [1], [1]] [[0], [1], [2]] 0 2 = Inr 2 \<and>
   samples_per_class ((example_config 0)\<lparr>do_sampling := True\<rparr>) = 1 \<and>
   num_classes_per_task ((example_config 0)\<lparr>do_sampling := True\<rparr>) = 1 \<and>
   (1::nat) \<noteq> 0 * 1 * 1 \<and> (2::nat) \<noteq> 2 * 1 * 2"
  by (simp add: replay_buffer_size_before_def buffer_size_def run_eval)

text \<open>
  C5, amended. When sampling is enabled and the tasks before \<open>t\<close> are done, the replay buffer
  holds, in order, the samples drawn after each of those tasks that is not the last task of
  the sequence: its size is the sum of the sizes of these draws, that is the number of such
  tasks times \<open>samples_per_class\<close> times \<open>num_classes_per_task\<close> when every draw returns that
  many examples; and the buffer only grows: what it holds then is a prefix of what it holds
  at any later task.
\<close>

theorem replay_buffer_accumulates:
  assumes "do_sampling cfg"
    and "t \<le> length datasets"
    and "snd (tasks_before env cfg datasets ca task_labels run t) = Inr st"
  shows "last_task st =
           foldl append_samples None
             (map (replay_sample env cfg datasets task_labels run)
                [0..<min t (length datasets - 1)]) \<and>
         buffer_size (last_task st) =
           sum_list (map (\<lambda>j. buffer_size (replay_sample env cfg datasets task_labels run j))
                      [0..<min t (length datasets - 1)]) \<and>
         ((\<forall>j<min t (length datasets - 1).
              buffer_size (replay_sample env cfg datasets task_labels run j) =
                samples_per_class cfg * num_classes_per_task cfg) \<longrightarrow>
            buffer_size (last_task st) =
              min t (length datasets - 1) * (samples_per_class cfg * num_classes_per_task cfg)) \<and>
         (\<forall>u st'. t \<le> u \<and> u \<le> length datasets \<and>
                  snd (tasks_before env cfg datasets ca task_labels run u) = Inr st' \<longrightarrow>
            (\<exists>more. buffer_images (last_task st') = buffer_images (last_task st) @ more))"
proof -
  let ?s = "replay_sample env cfg datasets task_labels run"
  let ?n = "min t (length datasets - 1)"
  from tasks_before_stores[OF assms(2,3)] assms(1)
  have buf: "last_task st = foldl append_samples None (map ?s [0..<?n])" by simp
  have size: "buffer_size (last_task st) = sum_list (map (\<lambda>j. buffer_size (?s j)) [0..<?n])"
    unfolding buf buffer_size_foldl by (simp add: comp_def)
  have exact: "buffer_size (last_task st) =
        ?n * (samples_per_class cfg * num_classes_per_task cfg)"
    if "\<forall>j<?n. buffer_size (?s j) = samples_per_class cfg * num_classes_per_task cfg"
  proof -
    from that have "\<forall>j\<in>set [0..<?n]. buffer_size (?s j) =
        samples_per_class cfg * num_classes_per_task cfg" by simp
    from sum_list_const[OF this] show ?thesis unfolding size by simp
  qed
  have grow: "\<exists>more. buffer_images (last_task st') = buffer_images (last_task st) @ more"
    if u: "t \<le> u \<and> u \<le> length datasets \<and>
           snd (tasks_before env cfg datasets ca task_labels run u) = Inr st'" for u st'
  proof -
    let ?m = "min u (length datasets - 1)"
    from u have le: "u \<le> length datasets"
      and r: "snd (tasks_before env cfg datasets ca task_labels run u) = Inr st'" by simp_all
    from tasks_before_stores[OF le r] assms(1)
    have buf': "last_task st' = foldl append_samples None (map ?s [0..<?m])" by simp
    have "t \<le> u" using u by simp
    then have "?n \<le> ?m" by (simp add: min_def)
    then have "[0..<?m] = [0..<?n] @ [?n..<?m]"
      by (metis le_add_diff_inverse upt_add_eq_append zero_le)
    then have "buffer_images (last_task st') =
        buffer_images (last_task st) @ concat (map buffer_images (map ?s [?n..<?m]))"
      unfolding buf buf' buffer_images_foldl by (simp add: buffer_images_def)
    then show ?thesis by blast
  qed
  from buf size exact grow show ?thesis by blast
qed

theorem replay_buffer_accumulates_witness:
  "do_sampling ((example_config 0)\<lparr>do_sampling := True\<rparr>) \<and>
   (\<exists>st. snd (tasks_before (example_env VAN (\<lambda>_ _ _. Fin 1))
              ((example_config 0)\<lparr>do_sampling := True\<rparr>)
              [example_dataset 10 0, example_dataset 10 1, example_dataset 10 2]
              [[1], [1], [1]] [[0], [1], [2]] 0 2) = Inr st \<and>
         buffer_size (last_task st) = 2 * (1 * 1) \<and>
         last_task st = Some \<lparr> images = [0, 0], labels = [0, 1] \<rparr>)"
proof -
  let ?E = "example_env VAN (\<lambda>_ _ _. Fin 1)"
  let ?C = "(example_config 0)\<lparr>do_sampling := True\<rparr>"
  let ?D = "[example_dataset 10 0, example_dataset 10 1, example_dataset 10 2]"
  have a: "do_sampling ?C" by (simp add: example_config_def)
  have b: "2 \<le> length ?D" by simp
  have "\<exists>st. snd (tasks_before ?E ?C ?D [[1], [1], [1]] [[0], [1], [2]] 0 2) = Inr st"
    by (simp add: run_eval)
  then obtain st where
    c: "snd (tasks_before ?E ?C ?D [[1], [1], [1]] [[0], [1], [2]] 0 2) = Inr st" ..
  note t = replay_buffer_accumulates[OF a b c]
  have s: "replay_sample ?E ?C ?D [[0], [1], [2]] 0 0 = Some \<lparr> images = [0], labels = [0] \<rparr>"
    "replay_sample ?E ?C ?D [[0], [1], [2]] 0 1 = Some \<lparr> images = [0], labels = [1] \<rparr>"
    by (simp_all add: replay_sample_def example_env_def example_config_def example_dataset_def
          sample_first_def upt_conv_Cons Let_def)
  have u: "[0..<min 2 (length ?D - 1)] = [0, 1]" by (simp add: upt_conv_Cons)
  from t have "last_task st = foldl append_samples None
      (map (replay_sample ?E ?C ?D [[0], [1], [2]] 0) [0..<min 2 (length ?D - 1)])" by blast
  then have "last_task st = append_samples (append_samples None
        (replay_sample ?E ?C ?D [[0], [1], [2]] 0 0)) (replay_sample ?E ?C ?D [[0], [1], [2]] 0 1)"
    unfolding u by simp
  then have l: "last_task st = Some \<lparr> images = [0, 0], labels = [0, 1] \<rparr>"
    unfolding s by (simp add: append_samples_def)
  then have "buffer_size (last_task st) = 2 * (1 * 1)" by (simp add: buffer_size_def)
  with a c l show ?thesis by blast
qed

text \<open>
  C8. For every task whose losses are non-improving at five consecutive early-stopping checks
  \<open>c\<close>, \<open>c + 100\<close>, ..., \<open>c + 400\<close> (a check is made at every iteration above 1000 that is a
  multiple of 100; non-improving: the loss is not below the largest of the four losses
  recorded at the checks so far), these iterations lying within the configured number of
  iterations and no step up to them failing, the training loop of the task breaks at
  iteration \<open>c + 400\<close> at the latest: no training step of a later iteration runs, so the loop
  ends before the configured count when \<open>c + 400\<close> is not its last iteration; the loop ends
  normally, and the task goes on to the updates between tasks (when it is not the last task)
  and to the evaluation.
\<close>

theorem early_stopping_ends_task:
  assumes prep: "snd (prepare_task env cfg datasets ca task_labels run task st0) = Inr (loc, st)"
    and chk: "check_due c"
    and cin: "c + 400 < nat (num_iters loc)"
    and nonimp: "\<forall>j<5. \<not> pf_less (reg_loss env run task (c + 100 * j))
                    (np_max (loss_world_at (reg_loss env run task) (loss_world st0) c))"
    and loss: "\<forall>k\<le>c + 400. reg_loss env run task k \<noteq> NaN"
    and feed: "int (num_train_examples loc) \<noteq> batch_size cfg"
    and fisher: "imp_method env = EWC \<or> imp_method env = RWALK \<longrightarrow> fisher_update_after env \<noteq> 0"
    and gem: "imp_method env = GEM \<longrightarrow> task \<le> length (task_based_memory st)"
    and snap: "train_single_epoch cfg \<and> \<not> cross_validate_mode cfg \<longrightarrow>
       (\<forall>k. \<exists>a. test_task_sequence (scorer env run task (Some k)) datasets ca
              (num_classes_per_task cfg) task_labels (cross_validate_mode cfg)
              (eval_single_head cfg) = Inr a)"
  shows "(\<exists>st'. snd (train_loop env cfg datasets ca task_labels run task loc st) = Inr st' \<and>
                my_threshold < i_am_increasing st') \<and>
         (\<forall>k ops. SessRun run task k ops
                    \<in> set (fst (train_task env cfg datasets ca task_labels run task st0)) \<longrightarrow>
                  k \<le> c + 400) \<and>
         (Suc task < length datasets \<longrightarrow>
            TaskUpdates run task \<in> set (fst (train_task env cfg datasets ca task_labels run task st0))) \<and>
         (\<exists>cv. Evaluate run task None cv
                  \<in> set (fst (train_task env cfg datasets ca task_labels run task st0)))"
proof -
  let ?loop = "train_loop env cfg datasets ca task_labels run task loc st"
  from prepare_task_ok[OF prep] have td: "task < length datasets" and tl: "task < length task_labels"
    and lw: "loss_world st = loss_world st0" by simp_all
  have ops: "\<forall>k. snd (train_ops env run task k (task_based_memory st)) = Inr ()"
    using train_ops_ok[OF fisher gem] by simp
  have "\<exists>s'. snd (for_break [0..<nat (num_iters loc)]
                 (train_iteration env cfg datasets ca task_labels run task loc) st) = Inr s' \<and>
              my_threshold < i_am_increasing s' \<and>
              (\<forall>ev\<in>set (fst (for_break [0..<nat (num_iters loc)]
                 (train_iteration env cfg datasets ca task_labels run task loc) st)).
                 \<forall>k ops. ev = SessRun run task k ops \<longrightarrow> k \<le> c + 400)"
    by (rule early_stop_loop[OF chk cin nonimp loss feed ops snap])
       (simp_all add: lw)
  then obtain st2 where l: "snd ?loop = Inr st2" and th: "my_threshold < i_am_increasing st2"
    and bound: "\<forall>ev\<in>set (fst ?loop). \<forall>k ops. ev = SessRun run task k ops \<longrightarrow> k \<le> c + 400"
    unfolding train_loop_def by blast
  from task_boundary_trace[OF td tl, of env cfg run st2] obtain st3 where
    bt: "fst (task_boundary env cfg datasets task_labels run task st2) =
           (if Suc task < length datasets then [TaskUpdates run task] else [])"
    and bs: "snd (task_boundary env cfg datasets task_labels run task st2) = Inr st3" by blast
  have tr: "fst (train_task env cfg datasets ca task_labels run task st0) =
      fst (prepare_task env cfg datasets ca task_labels run task st0) @ fst ?loop @
      (if Suc task < length datasets then [TaskUpdates run task] else []) @
      fst (finish_task env cfg datasets ca task_labels run task st3)"
    unfolding train_task_def using prep l bt bs by (simp add: fst_and_then)
  have a: "\<forall>k ops. SessRun run task k ops
                    \<in> set (fst (train_task env cfg datasets ca task_labels run task st0)) \<longrightarrow>
                  k \<le> c + 400"
  proof (intro allI impI)
    fix k ops
    assume "SessRun run task k ops
                    \<in> set (fst (train_task env cfg datasets ca task_labels run task st0))"
    then have "SessRun run task k ops \<in> set (fst ?loop)"
      unfolding tr
      using no_sess_run_prepare[of run task k ops env cfg datasets ca task_labels run task st0]
        no_sess_run_finish[of run task k ops env cfg datasets ca task_labels run task st3]
      by (auto split: if_splits)
    with bound show "k \<le> c + 400" by blast
  qed
  have b: "Suc task < length datasets \<longrightarrow>
            TaskUpdates run task \<in> set (fst (train_task env cfg datasets ca task_labels run task st0))"
    unfolding tr by simp
  have c: "\<exists>cv. Evaluate run task None cv
                  \<in> set (fst (train_task env cfg datasets ca task_labels run task st0))"
    unfolding tr using finish_task_evaluates[of run task env cfg datasets ca task_labels st3]
    by auto
  from l th a b c show ?thesis by blast
qed

theorem early_stopping_ends_task_witness:
  "check_due 1100 \<and>
   (\<exists>loc st. snd (prepare_task (example_env VAN (\<lambda>_ _ _. PInf)) (example_config 2000)
                    [example_dataset 10 0] [[1]] [[0]] 0 0 run_state_init) = Inr (loc, st) \<and>
              1100 + 400 < nat (num_iters loc)) \<and>
   SessRun 0 0 1999 [Train, RegLoss] \<notin>
     set (fst (train_task (example_env VAN (\<lambda>_ _ _. PInf)) (example_config 2000)
                [example_dataset 10 0] [[1]] [[0]] 0 0 run_state_init)) \<and>
   (\<exists>cv. Evaluate 0 0 None cv \<in>
     set (fst (train_task (example_env VAN (\<lambda>_ _ _. PInf)) (example_config 2000)
                [example_dataset 10 0] [[1]] [[0]] 0 0 run_state_init)))"
proof -
  let ?E = "example_env VAN (\<lambda>_ _ _. PInf) :: nat env"
  let ?C = "example_config 2000"
  let ?D = "[example_dataset 10 0]"
  let ?s0 = "run_state_init :: nat run_state"
  have "\<exists>p. snd (prepare_task ?E ?C ?D [[1]] [[0]] 0 0 ?s0) = Inr p \<and>
      num_iters (fst p) = 2000 \<and> num_train_examples (fst p) = 10"
    by (simp add: run_eval)
  then obtain loc st where
    prep: "snd (prepare_task ?E ?C ?D [[1]] [[0]] 0 0 ?s0) = Inr (loc, st)"
    and ni: "num_iters loc = 2000" and n: "num_train_examples loc = 10"
    by auto
  have chk: "check_due 1100" by (simp add: check_due_def)
  have cin: "1100 + 400 < nat (num_iters loc)" using ni by simp
  have nonimp: "\<forall>j<5. \<not> pf_less (reg_loss ?E 0 0 (1100 + 100 * j))
                    (np_max (loss_world_at (reg_loss ?E 0 0) (loss_world ?s0) 1100))"
    by (simp add: example_env_def pf_less_PInf)
  have loss: "\<forall>k\<le>1100 + 400. reg_loss ?E 0 0 k \<noteq> NaN"
    by (simp add: example_env_def)
  have feed: "int (num_train_examples loc) \<noteq> batch_size ?C"
    using n by (simp add: example_config_def)
  have fisher: "imp_method ?E = EWC \<or> imp_method ?E = RWALK \<longrightarrow> fisher_update_after ?E \<noteq> 0"
    and gem: "imp_method ?E = GEM \<longrightarrow> 0 \<le> length (task_based_memory st)"
    by (simp_all add: example_env_def)
  have snap: "train_single_epoch ?C \<and> \<not> cross_validate_mode ?C \<longrightarrow>
       (\<forall>k. \<exists>a. test_task_sequence (scorer ?E 0 0 (Some k)) ?D [[1]]
              (num_classes_per_task ?C) [[0]] (cross_validate_mode ?C)
              (eval_single_head ?C) = Inr a)"
    by (simp add: example_config_def)
  note t = early_stopping_ends_task[OF prep chk cin nonimp loss feed fisher gem snap]
  from t have "\<forall>k ops. SessRun 0 0 k ops
        \<in> set (fst (train_task ?E ?C ?D [[1]] [[0]] 0 0 ?s0)) \<longrightarrow> k \<le> 1100 + 400"
    by blast
  then have a: "SessRun 0 0 1999 [Train, RegLoss] \<notin>
      set (fst (train_task ?E ?C ?D [[1]] [[0]] 0 0 ?s0))"
    by fastforce
  from t have b: "\<exists>cv. Evaluate 0 0 None cv \<in> set (fst (train_task ?E ?C ?D [[1]] [[0]] 0 0 ?s0))"
    by blast
  from chk prep cin a b show ?thesis by blast
qed

end
